theory Spec2Isabelle
  imports Main
begin

section \<open>Data model of the game server\<close>

text \<open>
  The repository holds two variants of one socket.io game server: \<^verbatim>\<open>src/index.js\<close>, where
  the admin role is attached to a connection (\<^verbatim>\<open>adminId\<close>), and \<^verbatim>\<open>src/unnamed/part_000\<close>,
  where a static player \<^verbatim>\<open>admin\<close> sits in the roster from the start. Both keep the whole
  session in module-level variables and mutate them from event handlers that run to
  completion one after the other. The embedding threads that state explicitly.

  Strings are \<^typ>\<open>string\<close>; one \<^typ>\<open>char\<close> stands for one UTF-16 code unit of a JavaScript
  string, so \<^verbatim>\<open>substring(0, 15)\<close> is \<^term>\<open>take 15\<close>. Numbers are \<^typ>\<open>int\<close>: the handlers
  only count cells and decrement counters.

  Player and square objects are records; a property that some objects of the source lack
  (\<^verbatim>\<open>country\<close>, \<^verbatim>\<open>isAdmin\<close>) is an option, \<^term>\<open>None\<close> when the property is absent. The
  fields are prefixed because both objects have an \<^verbatim>\<open>id\<close> and a \<^verbatim>\<open>color\<close>.

  The argument of \<^verbatim>\<open>claimSquare\<close> is whatever value the client sent. The handlers compare
  it with the number 0 (\<^verbatim>\<open>===\<close>), use it as a property key of the grid and store it as the
  \<^verbatim>\<open>id\<close> of the cell, so a value is modelled by what these three uses see: an integer
  number, a string, or any other value (a fraction, a boolean, \<^verbatim>\<open>null\<close>, an array, an
  object) given by the property key it converts to. The key of an integer number is its
  decimal numeral; a number of magnitude \<open>10^21\<close> or more, whose key JavaScript writes with
  an exponent, counts as another value.
\<close>

datatype jsval = JNum int | JStr string | JOther string

type_synonym country = "string \<times> string"

record player =
  p_id :: string
  p_name :: string
  p_color :: string
  p_score :: int
  p_country :: "country option"
  isAdmin :: "bool option"

record square =
  s_id :: jsval
  s_color :: string
  ownerId :: string
  ownerName :: string

text \<open>
  \<^verbatim>\<open>grid\<close> is a JavaScript array. An assignment \<^verbatim>\<open>grid[k] = v\<close> converts \<open>k\<close> to a property
  key, a string. When the key is the decimal numeral of an array index (an integer from 0
  to \<open>2^32 - 2\<close>, written without sign or leading zeros), the assignment overwrites that
  element or, beyond the end, extends the array and leaves holes in between. With any
  other key it sets a property of the array object, which \<^verbatim>\<open>forEach\<close> and \<^verbatim>\<open>map\<close> never
  visit. \<^term>\<open>None\<close> in \<open>elems\<close> is a hole. The number 5, the string \<^verbatim>\<open>'5'\<close> and the array
  \<^verbatim>\<open>[5]\<close> all have the key \<^verbatim>\<open>5\<close>.

  Four keys are outside the model, because the source throws on them: \<^verbatim>\<open>length\<close> (the
  assignment itself throws), \<^verbatim>\<open>__proto__\<close> and \<^verbatim>\<open>forEach\<close> (the next \<^verbatim>\<open>grid.forEach\<close> throws)
  and \<^verbatim>\<open>map\<close> (the next \<^verbatim>\<open>grid.map\<close> throws). The model stores them like any other property;
  \<open>validEvent\<close> below excludes them.
\<close>

record garray =
  elems :: "square option list"
  props :: "(string \<times> square) list"

definition isArrayIndex :: "int \<Rightarrow> bool" where
  "isArrayIndex i \<longleftrightarrow> 0 \<le> i \<and> i < 4294967295"

text \<open>The decimal numeral of a number, and the property key of a value.\<close>

function digitsOf :: "int \<Rightarrow> string" where
  "digitsOf n =
     (if n < 10 then [''0123456789'' ! nat n]
      else digitsOf (n div 10) @ [''0123456789'' ! nat (n mod 10)])"
  by pat_completeness auto
termination
  by (relation "measure nat") auto

declare digitsOf.simps [simp del]

fun keyOf :: "jsval \<Rightarrow> string" where
  "keyOf (JNum i) = (if i < 0 then CHR ''-'' # digitsOf (- i) else digitsOf i)"
| "keyOf (JStr k) = k"
| "keyOf (JOther k) = k"

text \<open>
  A string key is an array index when it is the numeral of the number it reads as, and
  that number is below \<open>2^32 - 1\<close>.
\<close>

definition digitVal :: "char \<Rightarrow> int" where
  "digitVal c = of_char c - 48"

definition parseNat :: "string \<Rightarrow> int" where
  "parseNat k = fold (\<lambda>c acc. acc * 10 + digitVal c) k 0"

definition arrayIndex :: "string \<Rightarrow> nat option" where
  "arrayIndex k =
     (if k \<noteq> [] \<and> 0 \<le> parseNat k \<and> parseNat k < 4294967295 \<and> digitsOf (parseNat k) = k
      then Some (nat (parseNat k)) else None)"

fun elementIndex :: "jsval \<Rightarrow> nat option" where
  "elementIndex (JNum i) = (if isArrayIndex i then Some (nat i) else None)"
| "elementIndex (JStr k) = arrayIndex k"
| "elementIndex (JOther k) = arrayIndex k"

fun setProp :: "string \<Rightarrow> square \<Rightarrow> (string \<times> square) list \<Rightarrow> (string \<times> square) list" where
  "setProp k v [] = [(k, v)]"
| "setProp k v ((k', v') # kvs) =
     (if k = k' then (k, v) # kvs else (k', v') # setProp k v kvs)"

definition setElem :: "nat \<Rightarrow> square \<Rightarrow> square option list \<Rightarrow> square option list" where
  "setElem i v xs =
     (if i < length xs then xs[i := Some v]
      else xs @ replicate (i - length xs) None @ [Some v])"

definition assign :: "garray \<Rightarrow> jsval \<Rightarrow> square \<Rightarrow> garray" where
  "assign g k v =
     (case elementIndex k of
        Some n \<Rightarrow> g\<lparr>elems := setElem n v (elems g)\<rparr>
      | None \<Rightarrow> g\<lparr>props := setProp (keyOf k) v (props g)\<rparr>)"

text \<open>The elements \<^verbatim>\<open>forEach\<close> visits, in order: every element that is not a hole.\<close>

fun present :: "'a option list \<Rightarrow> 'a list" where
  "present [] = []"
| "present (None # xs) = present xs"
| "present (Some x # xs) = x # present xs"

definition cells :: "garray \<Rightarrow> square list" where
  "cells g = present (elems g)"

text \<open>\<^verbatim>\<open>grid.map((_, index) => f(index))\<close>: a new array of the same length, holes kept.\<close>

fun mapIndexed :: "(nat \<Rightarrow> square) \<Rightarrow> nat \<Rightarrow> square option list \<Rightarrow> square option list" where
  "mapIndexed f i [] = []"
| "mapIndexed f i (x # xs) = map_option (\<lambda>_. f i) x # mapIndexed f (Suc i) xs"

definition black :: string where
  "black = ''#000000''"

definition white :: string where
  "white = ''#FFFFFF''"

definition blankSquare :: "nat \<Rightarrow> square" where
  "blankSquare i = \<lparr>s_id = JNum (int i), s_color = white, ownerId = '''', ownerName = ''''\<rparr>"

definition adminSquare :: square where
  "adminSquare = \<lparr>s_id = JNum 0, s_color = black, ownerId = ''admin'', ownerName = ''Admin''\<rparr>"

subsection \<open>Session state\<close>

text \<open>
  \<^verbatim>\<open>gameInterval\<close> is \<^verbatim>\<open>null\<close> or a timer handle; \<^verbatim>\<open>clearInterval\<close> stops the timer but
  leaves the handle in the variable, so a stopped handle is still truthy. Every assignment
  to \<^verbatim>\<open>gameInterval\<close> comes after a \<^verbatim>\<open>clearInterval(gameInterval)\<close>, so the handle in the
  variable is the only round timer that can be running. \<^verbatim>\<open>countdownInterval\<close> is a local
  constant of \<^verbatim>\<open>endGame\<close>, reachable only from its own callback; the state counts the
  cooldown timers that are running.

  \<^verbatim>\<open>winner\<close> is \<^verbatim>\<open>null\<close>, \<^verbatim>\<open>undefined\<close> (a failed \<^verbatim>\<open>find\<close>) or an object. In the source
  the object is the roster entry itself; the model keeps a copy of its fields as they are
  when \<^verbatim>\<open>endGame\<close> assigns it, so a later change of that player's score or colour shows in
  the source's \<^verbatim>\<open>winner\<close> and not in the model's. Nothing below reads \<open>winner\<close> after such
  a change.
\<close>

datatype interval = Running | Cleared

datatype winner_val = Null | Undefined | Obj player

record state =
  players :: "player list"
  grid :: garray
  timeLeft :: int
  gameInterval :: "interval option"
  winner :: winner_val
  countdown :: "int option"
  adminId :: "string option"
  countdownIntervals :: nat

type_synonym snapshot = "garray \<times> player list \<times> int \<times> int option \<times> winner_val"

datatype emit =
    Broadcast snapshot
  | GameStateTo string snapshot
  | AdminStatus string bool
  | Callback string bool "string option"

definition snapshot :: "state \<Rightarrow> snapshot" where
  "snapshot s = (grid s, players s, timeLeft s, countdown s, winner s)"

definition broadcastGameState :: "state \<Rightarrow> emit" where
  "broadcastGameState s = Broadcast (snapshot s)"

definition initGrid :: garray where
  "initGrid = \<lparr>elems = Some adminSquare # map (\<lambda>i. Some (blankSquare i)) [1..<100], props = []\<rparr>"

definition init :: state where
  "init = \<lparr>players = [], grid = initGrid, timeLeft = 60, gameInterval = None,
            winner = Null, countdown = None, adminId = None, countdownIntervals = 0\<rparr>"

text \<open>Truthiness of \<^verbatim>\<open>adminId\<close> and of an \<^verbatim>\<open>ownerId\<close>: \<^verbatim>\<open>null\<close> and the empty string are falsy.\<close>

definition truthyId :: "string option \<Rightarrow> bool" where
  "truthyId x \<longleftrightarrow> (case x of None \<Rightarrow> False | Some i \<Rightarrow> i \<noteq> [])"

section \<open>The handlers of src/index.js\<close>

subsection \<open>Scores\<close>

text \<open>
  \<^verbatim>\<open>scores\<close> is an object used as a dictionary from owner id to count. The model is a map.
  It leaves out the members every object inherits from \<^verbatim>\<open>Object.prototype\<close>: for an id
  such as \<^verbatim>\<open>constructor\<close> or \<^verbatim>\<open>propertyIsEnumerable\<close> the source reads a function where the
  model reads nothing. \<open>protoKeys\<close> below lists these names and \<open>sidOk\<close> excludes them.
\<close>

definition countSquare :: "square \<Rightarrow> (string \<rightharpoonup> int) \<Rightarrow> (string \<rightharpoonup> int)" where
  "countSquare sq scores =
     (if ownerId sq \<noteq> []
      then scores(ownerId sq \<mapsto> (case scores (ownerId sq) of None \<Rightarrow> 0 | Some n \<Rightarrow> n) + 1)
      else scores)"

definition tally :: "garray \<Rightarrow> (string \<rightharpoonup> int) \<Rightarrow> (string \<rightharpoonup> int)" where
  "tally g scores = fold countSquare (cells g) scores"

definition scoreOf :: "(string \<rightharpoonup> int) \<Rightarrow> string \<Rightarrow> int" where
  "scoreOf scores i = (case scores i of None \<Rightarrow> 0 | Some n \<Rightarrow> n)"

definition calculateScores :: "state \<Rightarrow> state" where
  "calculateScores s =
     (let scores = tally (grid s) Map.empty
      in s\<lparr>players := map (\<lambda>p. p\<lparr>p_score := scoreOf scores (p_id p)\<rparr>) (players s)\<rparr>)"

subsection \<open>Round start and round end\<close>

definition clearInterval :: "interval option \<Rightarrow> interval option" where
  "clearInterval h = map_option (\<lambda>_. Cleared) h"

definition adminCellName :: "state \<Rightarrow> string" where
  "adminCellName s =
     (if truthyId (adminId s)
      then (case find (\<lambda>p. Some (p_id p) = adminId s) (players s) of
              None \<Rightarrow> ''Admin''
            | Some p \<Rightarrow> if p_name p \<noteq> [] then p_name p else ''Admin'')
      else ''Admin'')"

definition adminCell :: "state \<Rightarrow> square" where
  "adminCell s =
     \<lparr>s_id = JNum 0, s_color = black,
      ownerId = (case adminId s of None \<Rightarrow> ''admin'' | Some i \<Rightarrow> if i \<noteq> [] then i else ''admin''),
      ownerName = adminCellName s\<rparr>"

definition startGameTimer :: "state \<Rightarrow> state \<times> emit list" where
  "startGameTimer s =
     (let s1 = s\<lparr>gameInterval := clearInterval (gameInterval s), timeLeft := 60,
                 winner := Null, countdown := None\<rparr>;
          s2 = s1\<lparr>players :=
                   map (\<lambda>p. p\<lparr>p_score := (if Some (p_id p) = adminId s1 then 1 else 0)\<rparr>)
                     (players s1)\<rparr>;
          s3 = s2\<lparr>grid :=
                   \<lparr>elems = mapIndexed (\<lambda>i. if i = 0 then adminCell s2 else blankSquare i) 0
                              (elems (grid s2)),
                    props = []\<rparr>\<rparr>;
          s4 = s3\<lparr>gameInterval := Some Running\<rparr>
      in (s4, [broadcastGameState s3]))"

definition pickWinner :: "player list \<Rightarrow> int \<times> player option" where
  "pickWinner ps =
     fold (\<lambda>p (maxScore, winningPlayer).
             if p_score p > maxScore then (p_score p, Some p) else (maxScore, winningPlayer))
          ps (0, None)"

definition syntheticAdmin :: player where
  "syntheticAdmin = \<lparr>p_id = ''admin'', p_name = ''Admin'', p_color = black, p_score = 1,
                     p_country = None, isAdmin = None\<rparr>"

definition endGame :: "state \<Rightarrow> state \<times> emit list" where
  "endGame s =
     (let s1 = s\<lparr>gameInterval := clearInterval (gameInterval s)\<rparr>;
          scores0 = fold (\<lambda>p m. m(p_id p \<mapsto> 0)) (players s1) Map.empty;
          scores = tally (grid s1) scores0;
          s2 = s1\<lparr>players := map (\<lambda>p. p\<lparr>p_score := scoreOf scores (p_id p)\<rparr>) (players s1)\<rparr>;
          winningPlayer = snd (pickWinner (players s2));
          w = (case winningPlayer of
                 Some p \<Rightarrow> Obj p
               | None \<Rightarrow>
                   if truthyId (adminId s2)
                   then (case find (\<lambda>p. Some (p_id p) = adminId s2) (players s2) of
                           None \<Rightarrow> Undefined
                         | Some p \<Rightarrow> Obj p)
                   else Obj syntheticAdmin);
          s3 = s2\<lparr>winner := w\<rparr>;
          s4 = s3\<lparr>countdown := Some 10, countdownIntervals := Suc (countdownIntervals s3)\<rparr>
      in (s4, [broadcastGameState s3]))"

text \<open>The callback of the round timer, and the callback of a cooldown timer.\<close>

definition gameTick :: "state \<Rightarrow> state \<times> emit list" where
  "gameTick s =
     (let s1 = s\<lparr>timeLeft := timeLeft s - 1\<rparr>
      in if timeLeft s1 \<le> 0 then endGame s1 else (s1, [broadcastGameState s1]))"

definition cooldownTick :: "state \<Rightarrow> state \<times> emit list" where
  "cooldownTick s =
     (let n = (case countdown s of None \<Rightarrow> 0 | Some n \<Rightarrow> n) - 1;
          s1 = s\<lparr>countdown := Some n\<rparr>
      in if n \<le> 0
         then (let (s2, out) = startGameTimer (s1\<lparr>countdownIntervals := countdownIntervals s1 - 1\<rparr>)
               in (s2, broadcastGameState s1 # out))
         else (s1, [broadcastGameState s1]))"

subsection \<open>Connection, join, claim, disconnect\<close>

definition connection :: "string \<Rightarrow> state \<Rightarrow> state \<times> emit list" where
  "connection sid s =
     (let (s1, out) =
            (if players s = [] \<and> \<not> truthyId (adminId s)
             then (s\<lparr>adminId := Some sid\<rparr>, [AdminStatus sid True])
             else (s, [AdminStatus sid False]))
      in (s1, out @ [GameStateTo sid (snapshot s1)]))"

text \<open>
  \<^verbatim>\<open>generateRandomColor\<close> draws from \<^verbatim>\<open>Math.random\<close>. The join event carries the colours
  the successive calls return; the loop takes the first one no player has. When the draws
  run out before a free colour is found the model has no result, as a loop that never
  ends has none.
\<close>

fun pickColor :: "string list \<Rightarrow> player list \<Rightarrow> string option" where
  "pickColor [] ps = None"
| "pickColor (c # cs) ps =
     (if \<exists>p \<in> set ps. p_color p = c then pickColor cs ps else Some c)"

definition nameTaken :: string where
  "nameTaken = ''This name is already taken. Please choose a different one.''"

text \<open>
  \<^verbatim>\<open>joinGame\<close> in three parts: the name check, the colour the new player gets
  (\<open>resolveColor\<close>: black for the admin, a random free colour for anybody else who asks
  for black, the requested colour otherwise) and the rest of the handler (\<open>admit\<close>).
\<close>

definition resolveColor :: "string \<Rightarrow> string \<Rightarrow> string list \<Rightarrow> state \<Rightarrow> string option" where
  "resolveColor sid color draws s =
     (if Some sid = adminId s then Some black
      else if color = black then pickColor draws (players s)
      else Some color)"

definition admit :: "string \<Rightarrow> country \<Rightarrow> string \<Rightarrow> string \<Rightarrow> state \<Rightarrow> state \<times> emit list" where
  "admit sid ctry name c s =
     (let newPlayer = \<lparr>p_id = sid, p_name = take 15 name, p_color = c,
                       p_score = (if Some sid = adminId s then 1 else 0),
                       p_country = Some ctry, isAdmin = None\<rparr>;
          s1 = s\<lparr>players := players s @ [newPlayer]\<rparr>;
          (s2, out) = (if gameInterval s1 = None then startGameTimer s1 else (s1, []));
          s3 = calculateScores s2
      in (s3, out @ [broadcastGameState s3, Callback sid True None]))"

definition joinGame ::
  "string \<Rightarrow> country \<Rightarrow> string \<Rightarrow> string \<Rightarrow> string list \<Rightarrow> state \<Rightarrow> (state \<times> emit list) option" where
  "joinGame sid ctry name color draws s =
     (case find (\<lambda>p. p_name p = name) (players s) of
        Some existingPlayer \<Rightarrow> Some (s, [Callback sid False (Some nameTaken)])
      | None \<Rightarrow>
         (case resolveColor sid color draws s of
            None \<Rightarrow> None
          | Some c \<Rightarrow> Some (admit sid ctry name c s)))"

definition claimSquare :: "string \<Rightarrow> jsval \<Rightarrow> state \<Rightarrow> state \<times> emit list" where
  "claimSquare sid squareId s =
     (if countdown s \<noteq> None \<or> winner s \<noteq> Null then (s, [])
      else
        (case find (\<lambda>p. p_id p = sid) (players s) of
           None \<Rightarrow> (s, [])
         | Some player \<Rightarrow>
            if squareId = JNum 0 \<and> Some sid \<noteq> adminId s then (s, [])
            else
              (let s1 = s\<lparr>grid := assign (grid s) squareId
                                     \<lparr>s_id = squareId, s_color = p_color player,
                                      ownerId = p_id player, ownerName = p_name player\<rparr>\<rparr>;
                   s2 = calculateScores s1
               in (s2, [broadcastGameState s2]))))"

text \<open>\<^verbatim>\<open>adminPlayer.color = '#000000'\<close> mutates the first roster entry \<^verbatim>\<open>find\<close> returns.\<close>

fun updateFirst :: "('a \<Rightarrow> bool) \<Rightarrow> ('a \<Rightarrow> 'a) \<Rightarrow> 'a list \<Rightarrow> 'a list" where
  "updateFirst P f [] = []"
| "updateFirst P f (x # xs) = (if P x then f x # xs else x # updateFirst P f xs)"

definition promote :: "state \<Rightarrow> state \<times> emit list" where
  "promote s =
     (let s1 = s\<lparr>adminId := (case players s of [] \<Rightarrow> None | p # _ \<Rightarrow> Some (p_id p))\<rparr>
      in if truthyId (adminId s1)
         then (case find (\<lambda>p. Some (p_id p) = adminId s1) (players s1) of
                 None \<Rightarrow> (s1, [])
               | Some adminPlayer \<Rightarrow>
                  (let s2 = s1\<lparr>players := updateFirst (\<lambda>p. Some (p_id p) = adminId s1)
                                              (\<lambda>p. p\<lparr>p_color := black\<rparr>) (players s1)\<rparr>;
                       s3 = s2\<lparr>grid := assign (grid s2) (JNum 0)
                                          \<lparr>s_id = JNum 0, s_color = black,
                                           ownerId = p_id adminPlayer,
                                           ownerName = p_name adminPlayer\<rparr>\<rparr>
                   in (s3, [AdminStatus (p_id adminPlayer) True])))
         else (s1, []))"

definition resetGrid :: "garray \<Rightarrow> garray" where
  "resetGrid g =
     \<lparr>elems = mapIndexed (\<lambda>i. if i = 0 then adminSquare else blankSquare i) 0 (elems g),
      props = []\<rparr>"

definition disconnect :: "string \<Rightarrow> state \<Rightarrow> state \<times> emit list" where
  "disconnect sid s =
     (let s1 = s\<lparr>players := filter (\<lambda>p. p_id p \<noteq> sid) (players s)\<rparr>;
          (s2, out) = (if Some sid = adminId s1 then promote s1 else (s1, []));
          s3 = (if players s2 = []
                then s2\<lparr>gameInterval := None, timeLeft := 60, winner := Null,
                        countdown := None, grid := resetGrid (grid s2)\<rparr>
                else calculateScores s2)
      in (s3, out @ [broadcastGameState s3]))"

subsection \<open>Events\<close>

text \<open>
  One event is one run of a handler. A join carries the closure's \<^verbatim>\<open>socket.id\<close> and
  \<^verbatim>\<open>country\<close>, the request's \<^verbatim>\<open>name\<close> and \<^verbatim>\<open>color\<close>, and the random colours. A timer
  callback runs only while its timer is running.
\<close>

datatype event =
    Connection string
  | JoinGame string country string string "string list"
  | ClaimSquare string jsval
  | Disconnect string
  | GameTick
  | CooldownTick

fun handleEvent :: "event \<Rightarrow> state \<Rightarrow> (state \<times> emit list) option" where
  "handleEvent (Connection sid) s = Some (connection sid s)"
| "handleEvent (JoinGame sid ctry name color draws) s = joinGame sid ctry name color draws s"
| "handleEvent (ClaimSquare sid squareId) s = Some (claimSquare sid squareId s)"
| "handleEvent (Disconnect sid) s = Some (disconnect sid s)"
| "handleEvent GameTick s =
     Some (if gameInterval s = Some Running then gameTick s else (s, []))"
| "handleEvent CooldownTick s =
     Some (if countdownIntervals s > 0 then cooldownTick s else (s, []))"

fun run :: "event list \<Rightarrow> state \<Rightarrow> state option" where
  "run [] s = Some s"
| "run (e # es) s = (case handleEvent e s of None \<Rightarrow> None | Some (s', out) \<Rightarrow> run es s')"

section \<open>The handlers of src/unnamed/part_000\<close>

text \<open>
  The second variant has no \<^verbatim>\<open>adminId\<close>: the roster starts with the static player
  \<^verbatim>\<open>adminPlayer\<close>, whose \<^verbatim>\<open>isAdmin\<close> is true, and no connection ever holds the admin role.
  Its handlers work on the same state; they neither read nor write the field \<open>adminId\<close>.
  \<^verbatim>\<open>calculateScores\<close> and \<^verbatim>\<open>broadcastGameState\<close> are the same functions as in
  \<^verbatim>\<open>src/index.js\<close>. The names of this variant carry the suffix \<open>_p0\<close>.
\<close>

definition adminPlayer :: player where
  "adminPlayer = \<lparr>p_id = ''admin'', p_name = ''Admin'', p_color = black, p_score = 1,
                   p_country = None, isAdmin = Some True\<rparr>"

definition init_p0 :: state where
  "init_p0 = \<lparr>players = [adminPlayer], grid = initGrid, timeLeft = 60, gameInterval = None,
               winner = Null, countdown = None, adminId = None, countdownIntervals = 0\<rparr>"

definition startGameTimer_p0 :: "state \<Rightarrow> state \<times> emit list" where
  "startGameTimer_p0 s =
     (let s1 = s\<lparr>gameInterval := clearInterval (gameInterval s), timeLeft := 60,
                 winner := Null, countdown := None\<rparr>;
          s2 = s1\<lparr>players :=
                   map (\<lambda>p. if isAdmin p \<noteq> Some True then p\<lparr>p_score := 0\<rparr> else p)
                     (players s1)\<rparr>;
          s3 = s2\<lparr>grid := resetGrid (grid s2)\<rparr>;
          s4 = s3\<lparr>gameInterval := Some Running\<rparr>
      in (s4, [broadcastGameState s3]))"

definition endGame_p0 :: "state \<Rightarrow> state \<times> emit list" where
  "endGame_p0 s =
     (let s1 = s\<lparr>gameInterval := clearInterval (gameInterval s)\<rparr>;
          scores0 = fold (\<lambda>p m. m(p_id p \<mapsto> 0)) (players s1) Map.empty;
          scores = tally (grid s1) scores0;
          s2 = s1\<lparr>players := map (\<lambda>p. p\<lparr>p_score := scoreOf scores (p_id p)\<rparr>) (players s1)\<rparr>;
          winningPlayer = snd (pickWinner (players s2));
          s3 = s2\<lparr>winner := (case winningPlayer of None \<Rightarrow> Null | Some p \<Rightarrow> Obj p)\<rparr>;
          s4 = s3\<lparr>countdown := Some 10, countdownIntervals := Suc (countdownIntervals s3)\<rparr>
      in (s4, [broadcastGameState s3]))"

definition gameTick_p0 :: "state \<Rightarrow> state \<times> emit list" where
  "gameTick_p0 s =
     (let s1 = s\<lparr>timeLeft := timeLeft s - 1\<rparr>
      in if timeLeft s1 \<le> 0 then endGame_p0 s1 else (s1, [broadcastGameState s1]))"

definition cooldownTick_p0 :: "state \<Rightarrow> state \<times> emit list" where
  "cooldownTick_p0 s =
     (let n = (case countdown s of None \<Rightarrow> 0 | Some n \<Rightarrow> n) - 1;
          s1 = s\<lparr>countdown := Some n\<rparr>
      in if n \<le> 0
         then (let (s2, out) = startGameTimer_p0 (s1\<lparr>countdownIntervals := countdownIntervals s1 - 1\<rparr>)
               in (s2, broadcastGameState s1 # out))
         else (s1, [broadcastGameState s1]))"

definition connection_p0 :: "string \<Rightarrow> state \<Rightarrow> state \<times> emit list" where
  "connection_p0 sid s = (s, [GameStateTo sid (snapshot s)])"

text \<open>
  \<^verbatim>\<open>data.name.toLowerCase() === 'admin'\<close>. The only characters whose lower case is one of
  the letters of \<^verbatim>\<open>admin\<close> are those letters and their ASCII capitals, so for this
  comparison lowering the ASCII capitals is enough.
\<close>

definition lowerChar :: "char \<Rightarrow> char" where
  "lowerChar c =
     (if (65::nat) \<le> of_char c \<and> of_char c \<le> (90::nat)
      then char_of (of_char c + (32::nat)) else c)"

definition toLowerCase :: "string \<Rightarrow> string" where
  "toLowerCase n = map lowerChar n"

definition nameReserved :: string where
  \<open>nameReserved = ''You cannot use the name "Admin". Please choose a different name.''\<close>

definition admit_p0 :: "string \<Rightarrow> country \<Rightarrow> string \<Rightarrow> string \<Rightarrow> state \<Rightarrow> state \<times> emit list" where
  "admit_p0 sid ctry name color s =
     (let newPlayer = \<lparr>p_id = sid, p_name = take 15 name, p_color = color, p_score = 0,
                       p_country = Some ctry, isAdmin = Some False\<rparr>;
          s1 = s\<lparr>players := players s @ [newPlayer]\<rparr>;
          (s2, out) = (if gameInterval s1 = None then startGameTimer_p0 s1 else (s1, []));
          s3 = calculateScores s2
      in (s3, out @ [broadcastGameState s3, Callback sid True None]))"

definition joinGame_p0 ::
  "string \<Rightarrow> country \<Rightarrow> string \<Rightarrow> string \<Rightarrow> state \<Rightarrow> state \<times> emit list" where
  "joinGame_p0 sid ctry name color s =
     (case find (\<lambda>p. p_name p = name) (players s) of
        Some existingPlayer \<Rightarrow> (s, [Callback sid False (Some nameTaken)])
      | None \<Rightarrow>
         if toLowerCase name = ''admin'' then (s, [Callback sid False (Some nameReserved)])
         else admit_p0 sid ctry name color s)"

definition claimSquare_p0 :: "string \<Rightarrow> jsval \<Rightarrow> state \<Rightarrow> state \<times> emit list" where
  "claimSquare_p0 sid squareId s =
     (if countdown s \<noteq> None \<or> winner s \<noteq> Null \<or> squareId = JNum 0 then (s, [])
      else
        (case find (\<lambda>p. p_id p = sid) (players s) of
           None \<Rightarrow> (s, [])
         | Some player \<Rightarrow>
             (let s1 = s\<lparr>grid := assign (grid s) squareId
                                    \<lparr>s_id = squareId, s_color = p_color player,
                                     ownerId = p_id player, ownerName = p_name player\<rparr>\<rparr>;
                  s2 = calculateScores s1
              in (s2, [broadcastGameState s2]))))"

definition disconnect_p0 :: "string \<Rightarrow> state \<Rightarrow> state \<times> emit list" where
  "disconnect_p0 sid s =
     (let s1 = s\<lparr>players := filter (\<lambda>p. p_id p \<noteq> sid) (players s)\<rparr>;
          s2 = (if players s1 = []
                then s1\<lparr>gameInterval := None, timeLeft := 60, winner := Null,
                        countdown := None, grid := resetGrid (grid s1)\<rparr>
                else calculateScores s1)
      in (s2, [broadcastGameState s2]))"

text \<open>The random colours of a join event are not used by this variant.\<close>

fun handleEvent_p0 :: "event \<Rightarrow> state \<Rightarrow> state \<times> emit list" where
  "handleEvent_p0 (Connection sid) s = connection_p0 sid s"
| "handleEvent_p0 (JoinGame sid ctry name color draws) s = joinGame_p0 sid ctry name color s"
| "handleEvent_p0 (ClaimSquare sid squareId) s = claimSquare_p0 sid squareId s"
| "handleEvent_p0 (Disconnect sid) s = disconnect_p0 sid s"
| "handleEvent_p0 GameTick s =
     (if gameInterval s = Some Running then gameTick_p0 s else (s, []))"
| "handleEvent_p0 CooldownTick s =
     (if countdownIntervals s > 0 then cooldownTick_p0 s else (s, []))"

fun run_p0 :: "event list \<Rightarrow> state \<Rightarrow> state" where
  "run_p0 [] s = s"
| "run_p0 (e # es) s = run_p0 es (fst (handleEvent_p0 e s))"

section \<open>Notions of the specification\<close>

text \<open>
  The source has no phase variable. A round timer runs exactly in the phase the
  specification calls Active, and \<^verbatim>\<open>countdown\<close> is set exactly during a cooldown.
\<close>

datatype phase = Lobby | Active | Cooldown

definition phaseOf :: "state \<Rightarrow> phase" where
  "phaseOf s =
     (if gameInterval s = Some Running then Active
      else if countdown s \<noteq> None then Cooldown
      else Lobby)"

text \<open>The number of grid cells a given id owns, and the score invariant.\<close>

definition owned :: "garray \<Rightarrow> string \<Rightarrow> nat" where
  "owned g i = length (filter (\<lambda>c. ownerId c = i) (cells g))"

definition scoresConsistent :: "state \<Rightarrow> bool" where
  "scoresConsistent s \<longleftrightarrow> (\<forall>p \<in> set (players s). p_score p = int (owned (grid s) (p_id p)))"

text \<open>The owner of the element at an index, if there is an element.\<close>

definition ownerAt :: "garray \<Rightarrow> nat \<Rightarrow> string option" where
  "ownerAt g i = (if i < length (elems g) then map_option ownerId (elems g ! i) else None)"

text \<open>
  socket.io gives every connection an id of twenty random characters. The properties that
  depend on ids need that an id is not empty, is not the placeholder \<^verbatim>\<open>admin\<close>, and is not
  the name of a member of \<^verbatim>\<open>Object.prototype\<close>. A valid event has such an id and, for a
  claim, a cell id whose key is not one of the four on which the source throws.
\<close>

definition protoKeys :: "string list" where
  "protoKeys = [''constructor'', ''hasOwnProperty'', ''isPrototypeOf'', ''propertyIsEnumerable'',
                ''toLocaleString'', ''toString'', ''valueOf'', ''__proto__'',
                ''__defineGetter__'', ''__defineSetter__'', ''__lookupGetter__'',
                ''__lookupSetter__'']"

definition reservedKeys :: "string list" where
  "reservedKeys = [''length'', ''__proto__'', ''forEach'', ''map'']"

definition sidOk :: "string \<Rightarrow> bool" where
  "sidOk i \<longleftrightarrow> i \<noteq> [] \<and> i \<noteq> ''admin'' \<and> i \<notin> set protoKeys"

fun validEvent :: "event \<Rightarrow> bool" where
  "validEvent (Connection sid) = sidOk sid"
| "validEvent (JoinGame sid ctry name color draws) = sidOk sid"
| "validEvent (ClaimSquare sid squareId) = (sidOk sid \<and> keyOf squareId \<notin> set reservedKeys)"
| "validEvent (Disconnect sid) = sidOk sid"
| "validEvent GameTick = True"
| "validEvent CooldownTick = True"

text \<open>A join whose requested name \<^verbatim>\<open>substring(0, 15)\<close> leaves as it is.\<close>

fun shortName :: "event \<Rightarrow> bool" where
  "shortName (JoinGame sid ctry name color draws) = (length name \<le> 15)"
| "shortName _ = True"

text \<open>Connections and a country for the scenarios below.\<close>

definition sidA :: string where
  "sidA = ''aaaaaaaaaaaaaaaaaaaa''"

definition sidB :: string where
  "sidB = ''bbbbbbbbbbbbbbbbbbbb''"

definition sidC :: string where
  "sidC = ''cccccccccccccccccccc''"

definition unknown :: country where
  "unknown = (''xx'', ''Unknown'')"

definition alJoined :: "event list" where
  "alJoined = [Connection sidA, JoinGame sidA unknown ''Al'' ''#ff0000'' []]"

definition alBoJoined :: "event list" where
  "alBoJoined = alJoined @ [Connection sidB, JoinGame sidB unknown ''Bo'' ''#00ff00'' []]"

definition al :: player where
  "al = \<lparr>p_id = sidA, p_name = ''Al'', p_color = ''#000000'', p_score = 1,
         p_country = Some unknown, isAdmin = None\<rparr>"

definition bo :: player where
  "bo = \<lparr>p_id = sidB, p_name = ''Bo'', p_color = ''#00ff00'', p_score = 0,
         p_country = Some unknown, isAdmin = None\<rparr>"

definition boAlone :: "event list" where
  "boAlone = [Connection sidA, Connection sidB, JoinGame sidB unknown ''Bo'' ''#00ff00'' []]"

text \<open>The small variables of a state, to read off the outcome of a scenario.\<close>

definition summary ::
  "state \<Rightarrow> string list \<times> int list \<times> string option \<times> phase \<times> interval option \<times> nat \<times> int option \<times> int \<times> winner_val" where
  "summary s = (map p_id (players s), map p_score (players s), adminId s, phaseOf s,
                gameInterval s, countdownIntervals s, countdown s, timeLeft s, winner s)"

text \<open>States with a round timer running, and with a cooldown timer running.\<close>

definition running :: state where
  "running = init\<lparr>gameInterval := Some Running\<rparr>"

definition lastSecond :: state where
  "lastSecond = init\<lparr>gameInterval := Some Running, timeLeft := 1\<rparr>"

definition cooling :: "int \<Rightarrow> state" where
  "cooling n = init\<lparr>gameInterval := Some Cleared, countdown := Some n, countdownIntervals := 1\<rparr>"

definition threeJoined :: "event list" where
  "threeJoined = alBoJoined @ [Connection sidC, JoinGame sidC unknown ''Cy'' ''#00ff00'' []]"

definition longNames :: "event list" where
  "longNames = [Connection sidA, JoinGame sidA unknown ''0123456789abcdeX'' ''#ff0000'' [],
                Connection sidB, JoinGame sidB unknown ''0123456789abcdeY'' ''#00ff00'' []]"

text \<open>
  Al joins and claims the cell with the string \<^verbatim>\<open>'0'\<close>; then the round runs out and the
  cooldown after it. \<open>scoreTable\<close> lists, for every player, the id, the score and the number
  of cells the id owns.
\<close>

definition zeroClaimed :: "event list" where
  "zeroClaimed = alJoined @ [ClaimSquare sidA (JStr ''0'')]"

definition zeroRestarted :: "event list" where
  "zeroRestarted = zeroClaimed @ replicate 60 GameTick @ replicate 10 CooldownTick"

definition scoreTable :: "state \<Rightarrow> (string \<times> int \<times> nat) list" where
  "scoreTable s = map (\<lambda>p. (p_id p, p_score p, owned (grid s) (p_id p))) (players s)"

text \<open>
  A cell id that can reach cell 0 of the static-admin variant past its guard: a value
  other than the number 0 whose key is \<^verbatim>\<open>0\<close>.
\<close>

fun slipsToZero :: "jsval \<Rightarrow> bool" where
  "slipsToZero (JNum i) = False"
| "slipsToZero (JStr k) = (k = ''0'')"
| "slipsToZero (JOther k) = (k = ''0'')"

fun plainClaim :: "event \<Rightarrow> bool" where
  "plainClaim (ClaimSquare sid squareId) = (\<not> slipsToZero squareId)"
| "plainClaim _ = True"

section \<open>Auxiliary definitions\<close>

text \<open>
  Names for the pieces of the handlers that the lemmas below talk about, and the two
  invariants that tie the timers to the roster.
\<close>

definition endScores :: "state \<Rightarrow> (string \<rightharpoonup> int)" where
  "endScores s = tally (grid s) (fold (\<lambda>p m. m(p_id p \<mapsto> 0)) (players s) Map.empty)"

definition ticked :: "state \<Rightarrow> int" where
  "ticked s = (case countdown s of None \<Rightarrow> 0 | Some n \<Rightarrow> n) - 1"

definition newPlayer :: "string \<Rightarrow> country \<Rightarrow> string \<Rightarrow> string \<Rightarrow> state \<Rightarrow> player" where
  "newPlayer sid ctry name c s =
     \<lparr>p_id = sid, p_name = take 15 name, p_color = c,
      p_score = (if Some sid = adminId s then 1 else 0),
      p_country = Some ctry, isAdmin = None\<rparr>"

definition newPlayer_p0 :: "string \<Rightarrow> country \<Rightarrow> string \<Rightarrow> string \<Rightarrow> player" where
  "newPlayer_p0 sid ctry name c =
     \<lparr>p_id = sid, p_name = take 15 name, p_color = c, p_score = 0,
      p_country = Some ctry, isAdmin = Some False\<rparr>"

definition claimed :: "player \<Rightarrow> jsval \<Rightarrow> square" where
  "claimed p squareId =
     \<lparr>s_id = squareId, s_color = p_color p, ownerId = p_id p, ownerName = p_name p\<rparr>"

definition lobby :: "state \<Rightarrow> state" where
  "lobby s = s\<lparr>gameInterval := None, timeLeft := 60, winner := Null, countdown := None,
               grid := resetGrid (grid s)\<rparr>"

definition timersOk :: "state \<Rightarrow> bool" where
  "timersOk s \<longleftrightarrow> (gameInterval s = None \<longrightarrow> players s = [])
                \<and> (gameInterval s = Some Cleared \<longrightarrow> countdown s \<noteq> None)"

definition timersOk_p0 :: "state \<Rightarrow> bool" where
  "timersOk_p0 s \<longleftrightarrow> (gameInterval s = None \<longrightarrow> (\<forall>i \<in> set (map p_id (players s)). i = ''admin''))
                   \<and> (gameInterval s = Some Cleared \<longrightarrow> countdown s \<noteq> None)"

text \<open>
  The invariants behind the score property: every roster id is a connection id, cell 0 is
  never a hole, and in the static-admin variant the placeholder \<^verbatim>\<open>admin\<close> owns cell 0
  and no other cell.
\<close>

definition hasZero :: "garray \<Rightarrow> bool" where
  "hasZero g \<longleftrightarrow> (\<exists>sq rest. elems g = Some sq # rest)"

definition idsOk :: "state \<Rightarrow> bool" where
  "idsOk s \<longleftrightarrow> (\<forall>i \<in> set (map p_id (players s)). sidOk i)"

definition scoreInv :: "state \<Rightarrow> bool" where
  "scoreInv s \<longleftrightarrow> scoresConsistent s \<and> idsOk s \<and> hasZero (grid s)"

definition gridAdmin :: "garray \<Rightarrow> bool" where
  "gridAdmin g \<longleftrightarrow>
     (\<exists>sq rest. elems g = Some sq # rest \<and> ownerId sq = ''admin''
        \<and> (\<forall>c \<in> set (present rest). ownerId c \<noteq> ''admin''))"

definition rosterOk_p0 :: "state \<Rightarrow> bool" where
  "rosterOk_p0 s \<longleftrightarrow>
     (\<forall>p \<in> set (players s).
        (isAdmin p = Some True \<longrightarrow> p_id p = ''admin'')
      \<and> (isAdmin p \<noteq> Some True \<longrightarrow> sidOk (p_id p)))"

definition scoreInv_p0 :: "state \<Rightarrow> bool" where
  "scoreInv_p0 s \<longleftrightarrow> scoresConsistent s \<and> rosterOk_p0 s \<and> gridAdmin (grid s)"

section \<open>Basic facts\<close>

lemma find_name_Some:
  "p \<in> set ps \<Longrightarrow> P p \<Longrightarrow> \<exists>q. find P ps = Some q"
  by (cases "find P ps") (auto simp: find_None_iff)

lemma setElem_0: "\<exists>rest. setElem 0 v xs = Some v # rest"
  by (cases xs) (simp_all add: setElem_def)

lemma assign_0: "\<exists>rest. elems (assign g (JNum 0) v) = Some v # rest"
  using setElem_0 [of v "elems g"] by (simp add: assign_def isArrayIndex_def)

lemma length_mapIndexed [simp]: "length (mapIndexed f k xs) = length xs"
  by (induction xs arbitrary: k) simp_all

lemma mapIndexed_nth:
  "i < length xs \<Longrightarrow> mapIndexed f k xs ! i = map_option (\<lambda>_. f (k + i)) (xs ! i)"
proof (induction xs arbitrary: k i)
  case Nil
  then show ?case by simp
next
  case (Cons x xs)
  show ?case
  proof (cases i)
    case 0
    then show ?thesis by simp
  next
    case (Suc j)
    with Cons show ?thesis by simp
  qed
qed

subsection \<open>What each operation does to each variable\<close>

lemma calculateScores_fields [simp]:
  "players (calculateScores s) =
     map (\<lambda>p. p\<lparr>p_score := scoreOf (tally (grid s) Map.empty) (p_id p)\<rparr>) (players s)"
  "grid (calculateScores s) = grid s"
  "timeLeft (calculateScores s) = timeLeft s"
  "gameInterval (calculateScores s) = gameInterval s"
  "winner (calculateScores s) = winner s"
  "countdown (calculateScores s) = countdown s"
  "adminId (calculateScores s) = adminId s"
  "countdownIntervals (calculateScores s) = countdownIntervals s"
  by (simp_all add: calculateScores_def Let_def)

lemma startGameTimer_fields [simp]:
  "players (fst (startGameTimer s)) =
     map (\<lambda>p. p\<lparr>p_score := (if Some (p_id p) = adminId s then 1 else 0)\<rparr>) (players s)"
  "timeLeft (fst (startGameTimer s)) = 60"
  "gameInterval (fst (startGameTimer s)) = Some Running"
  "winner (fst (startGameTimer s)) = Null"
  "countdown (fst (startGameTimer s)) = None"
  "adminId (fst (startGameTimer s)) = adminId s"
  "countdownIntervals (fst (startGameTimer s)) = countdownIntervals s"
  by (simp_all add: startGameTimer_def Let_def)

lemma find_map_score:
  "find (\<lambda>p. Q (p_id p)) (map (\<lambda>p. p\<lparr>p_score := f p\<rparr>) ps) =
     map_option (\<lambda>p. p\<lparr>p_score := f p\<rparr>) (find (\<lambda>p. Q (p_id p)) ps)"
  by (induction ps) simp_all

lemma adminCell_scores:
  "adminId s' = adminId s \<Longrightarrow> players s' = map (\<lambda>p. p\<lparr>p_score := f p\<rparr>) (players s) \<Longrightarrow>
   adminCell s' = adminCell s"
  using find_map_score [of "\<lambda>i. Some i = adminId s" f "players s"]
  by (simp add: adminCell_def adminCellName_def split: option.splits)

lemma startGameTimer_grid:
  "grid (fst (startGameTimer s)) =
     \<lparr>elems = mapIndexed (\<lambda>i. if i = 0 then adminCell s else blankSquare i) 0 (elems (grid s)),
      props = []\<rparr>"
proof -
  have "adminCell (s\<lparr>gameInterval := clearInterval (gameInterval s), timeLeft := 60,
                     winner := Null, countdown := None,
                     players := map (\<lambda>p. p\<lparr>p_score := (if Some (p_id p) = adminId s then 1 else 0)\<rparr>)
                                  (players s)\<rparr>) = adminCell s"
    by (rule adminCell_scores
          [where f = "\<lambda>p. if Some (p_id p) = adminId s then 1 else 0"]) simp_all
  then show ?thesis
    by (simp add: startGameTimer_def Let_def cong: if_cong)
qed

lemma startGameTimer_p0_fields [simp]:
  "players (fst (startGameTimer_p0 s)) =
     map (\<lambda>p. if isAdmin p \<noteq> Some True then p\<lparr>p_score := 0\<rparr> else p) (players s)"
  "grid (fst (startGameTimer_p0 s)) = resetGrid (grid s)"
  "timeLeft (fst (startGameTimer_p0 s)) = 60"
  "gameInterval (fst (startGameTimer_p0 s)) = Some Running"
  "winner (fst (startGameTimer_p0 s)) = Null"
  "countdown (fst (startGameTimer_p0 s)) = None"
  "adminId (fst (startGameTimer_p0 s)) = adminId s"
  "countdownIntervals (fst (startGameTimer_p0 s)) = countdownIntervals s"
  by (simp_all add: startGameTimer_p0_def Let_def)

lemma endGame_fields [simp]:
  "players (fst (endGame s)) = map (\<lambda>p. p\<lparr>p_score := scoreOf (endScores s) (p_id p)\<rparr>) (players s)"
  "grid (fst (endGame s)) = grid s"
  "timeLeft (fst (endGame s)) = timeLeft s"
  "gameInterval (fst (endGame s)) = clearInterval (gameInterval s)"
  "countdown (fst (endGame s)) = Some 10"
  "adminId (fst (endGame s)) = adminId s"
  "countdownIntervals (fst (endGame s)) = Suc (countdownIntervals s)"
  by (simp_all add: endGame_def endScores_def Let_def)

lemma endGame_p0_fields [simp]:
  "players (fst (endGame_p0 s)) = map (\<lambda>p. p\<lparr>p_score := scoreOf (endScores s) (p_id p)\<rparr>) (players s)"
  "grid (fst (endGame_p0 s)) = grid s"
  "timeLeft (fst (endGame_p0 s)) = timeLeft s"
  "gameInterval (fst (endGame_p0 s)) = clearInterval (gameInterval s)"
  "countdown (fst (endGame_p0 s)) = Some 10"
  "adminId (fst (endGame_p0 s)) = adminId s"
  "countdownIntervals (fst (endGame_p0 s)) = Suc (countdownIntervals s)"
  by (simp_all add: endGame_p0_def endScores_def Let_def)

lemma gameTick_eq:
  "fst (gameTick s) =
     (if timeLeft s - 1 \<le> 0 then fst (endGame (s\<lparr>timeLeft := timeLeft s - 1\<rparr>))
      else s\<lparr>timeLeft := timeLeft s - 1\<rparr>)"
  by (simp add: gameTick_def Let_def)

lemma gameTick_p0_eq:
  "fst (gameTick_p0 s) =
     (if timeLeft s - 1 \<le> 0 then fst (endGame_p0 (s\<lparr>timeLeft := timeLeft s - 1\<rparr>))
      else s\<lparr>timeLeft := timeLeft s - 1\<rparr>)"
  by (simp add: gameTick_p0_def Let_def)

lemma cooldownTick_eq:
  "fst (cooldownTick s) =
     (if ticked s \<le> 0
      then fst (startGameTimer (s\<lparr>countdown := Some (ticked s),
                                  countdownIntervals := countdownIntervals s - 1\<rparr>))
      else s\<lparr>countdown := Some (ticked s)\<rparr>)"
  by (simp add: cooldownTick_def ticked_def Let_def split_def)

lemma cooldownTick_p0_eq:
  "fst (cooldownTick_p0 s) =
     (if ticked s \<le> 0
      then fst (startGameTimer_p0 (s\<lparr>countdown := Some (ticked s),
                                     countdownIntervals := countdownIntervals s - 1\<rparr>))
      else s\<lparr>countdown := Some (ticked s)\<rparr>)"
  by (simp add: cooldownTick_p0_def ticked_def Let_def split_def)

lemma admit_eq:
  "fst (admit sid ctry name c s) =
     calculateScores
       (if gameInterval s = None
        then fst (startGameTimer (s\<lparr>players := players s @ [newPlayer sid ctry name c s]\<rparr>))
        else s\<lparr>players := players s @ [newPlayer sid ctry name c s]\<rparr>)"
  by (simp add: admit_def newPlayer_def Let_def split_def)

lemma admit_p0_eq:
  "fst (admit_p0 sid ctry name c s) =
     calculateScores
       (if gameInterval s = None
        then fst (startGameTimer_p0 (s\<lparr>players := players s @ [newPlayer_p0 sid ctry name c]\<rparr>))
        else s\<lparr>players := players s @ [newPlayer_p0 sid ctry name c]\<rparr>)"
  by (simp add: admit_p0_def newPlayer_p0_def Let_def split_def)

lemma claimSquare_eq:
  "fst (claimSquare sid squareId s) =
     (if countdown s \<noteq> None \<or> winner s \<noteq> Null then s
      else case find (\<lambda>p. p_id p = sid) (players s) of
             None \<Rightarrow> s
           | Some p \<Rightarrow>
               if squareId = JNum 0 \<and> Some sid \<noteq> adminId s then s
               else calculateScores (s\<lparr>grid := assign (grid s) squareId (claimed p squareId)\<rparr>))"
  by (simp add: claimSquare_def claimed_def Let_def split: option.splits)

lemma claimSquare_p0_eq:
  "fst (claimSquare_p0 sid squareId s) =
     (if countdown s \<noteq> None \<or> winner s \<noteq> Null \<or> squareId = JNum 0 then s
      else case find (\<lambda>p. p_id p = sid) (players s) of
             None \<Rightarrow> s
           | Some p \<Rightarrow> calculateScores (s\<lparr>grid := assign (grid s) squareId (claimed p squareId)\<rparr>))"
  by (simp add: claimSquare_p0_def claimed_def Let_def split: option.splits)

lemma promote_fields [simp]:
  "timeLeft (fst (promote s)) = timeLeft s"
  "gameInterval (fst (promote s)) = gameInterval s"
  "winner (fst (promote s)) = winner s"
  "countdown (fst (promote s)) = countdown s"
  "countdownIntervals (fst (promote s)) = countdownIntervals s"
  "adminId (fst (promote s)) = (case players s of [] \<Rightarrow> None | p # _ \<Rightarrow> Some (p_id p))"
  by (simp_all add: promote_def Let_def split: option.splits)

lemma promote_players:
  "players (fst (promote s)) =
     (case players s of
        [] \<Rightarrow> []
      | p # ps \<Rightarrow> if p_id p \<noteq> [] then p\<lparr>p_color := black\<rparr> # ps else p # ps)"
  by (simp add: promote_def Let_def truthyId_def split: list.splits)

lemma promote_grid:
  "grid (fst (promote s)) =
     (case players s of
        [] \<Rightarrow> grid s
      | p # ps \<Rightarrow> if p_id p \<noteq> []
                  then assign (grid s) (JNum 0)
                         \<lparr>s_id = JNum 0, s_color = black, ownerId = p_id p, ownerName = p_name p\<rparr>
                  else grid s)"
  by (simp add: promote_def Let_def truthyId_def split: list.splits)

lemma disconnect_eq:
  "fst (disconnect sid s) =
     (let s1 = s\<lparr>players := filter (\<lambda>p. p_id p \<noteq> sid) (players s)\<rparr>;
          s2 = (if Some sid = adminId s then fst (promote s1) else s1)
      in if players s2 = [] then lobby s2 else calculateScores s2)"
  by (simp add: disconnect_def lobby_def Let_def split_def)

lemma disconnect_p0_eq:
  "fst (disconnect_p0 sid s) =
     (let s1 = s\<lparr>players := filter (\<lambda>p. p_id p \<noteq> sid) (players s)\<rparr>
      in if players s1 = [] then lobby s1 else calculateScores s1)"
  by (simp add: disconnect_p0_def lobby_def Let_def)

lemma connection_eq:
  "fst (connection sid s) =
     (if players s = [] \<and> \<not> truthyId (adminId s) then s\<lparr>adminId := Some sid\<rparr> else s)"
  by (simp add: connection_def Let_def)

lemma run_invariant:
  assumes "run evs s0 = Some s" and "I s0"
      and "\<And>e s s' out. I s \<Longrightarrow> e \<in> set evs \<Longrightarrow> handleEvent e s = Some (s', out) \<Longrightarrow> I s'"
  shows "I s"
  using assms
proof (induction evs arbitrary: s0)
  case Nil
  then show ?case by simp
next
  case (Cons e es)
  from Cons.prems(1) obtain s1 out where h: "handleEvent e s0 = Some (s1, out)" and r: "run es s1 = Some s"
    by (auto split: option.splits)
  have i1: "I s1"
    using Cons.prems(3) [OF Cons.prems(2) _ h] by simp
  show ?case
  proof (rule Cons.IH [OF r i1])
    fix e' t t' out'
    assume "I t" and "e' \<in> set es" and "handleEvent e' t = Some (t', out')"
    then show "I t'"
      using Cons.prems(3) [of t e' t' out'] by simp
  qed
qed

lemma run_p0_invariant:
  assumes "I s0"
      and "\<And>e s. I s \<Longrightarrow> e \<in> set evs \<Longrightarrow> I (fst (handleEvent_p0 e s))"
  shows "I (run_p0 evs s0)"
  using assms
proof (induction evs arbitrary: s0)
  case Nil
  then show ?case by simp
next
  case (Cons e es)
  have i1: "I (fst (handleEvent_p0 e s0))"
    using Cons.prems(2) [OF Cons.prems(1), of e] by simp
  have "I (run_p0 es (fst (handleEvent_p0 e s0)))"
  proof (rule Cons.IH [OF i1])
    fix e' t
    assume "I t" and "e' \<in> set es"
    then show "I (fst (handleEvent_p0 e' t))"
      using Cons.prems(2) [of t e'] by simp
  qed
  then show ?case by simp
qed

text \<open>A step of src/index.js, by cases on the event, with the resulting state named.\<close>

lemma handleEvent_cases:
  assumes "handleEvent e s = Some (s', out)"
  obtains
    (connection) sid where "e = Connection sid" "s' = fst (connection sid s)"
  | (rejected) sid ctry name color draws where "e = JoinGame sid ctry name color draws" "s' = s"
  | (admitted) sid ctry name color draws c where "e = JoinGame sid ctry name color draws"
      "find (\<lambda>p. p_name p = name) (players s) = None"
      "resolveColor sid color draws s = Some c" "s' = fst (admit sid ctry name c s)"
  | (claim) sid squareId where "e = ClaimSquare sid squareId" "s' = fst (claimSquare sid squareId s)"
  | (disconnect) sid where "e = Disconnect sid" "s' = fst (disconnect sid s)"
  | (gameTick) "e = GameTick" "gameInterval s = Some Running" "s' = fst (gameTick s)"
  | (cooldownTick) "e = CooldownTick" "0 < countdownIntervals s" "s' = fst (cooldownTick s)"
  | (idle) "s' = s"
proof (cases e)
  case (Connection sid)
  with assms connection show ?thesis by auto
next
  case (JoinGame sid ctry name color draws)
  with assms rejected admitted show ?thesis
    by (auto simp: joinGame_def split: option.splits)
next
  case (ClaimSquare sid squareId)
  with assms claim show ?thesis by auto
next
  case (Disconnect sid)
  with assms disconnect show ?thesis by auto
next
  case GameTick
  with assms gameTick idle show ?thesis by (auto split: if_splits)
next
  case CooldownTick
  with assms cooldownTick idle show ?thesis by (auto split: if_splits)
qed

lemma handleEvent_p0_cases:
  obtains
    (connection) "fst (handleEvent_p0 e s) = s"
  | (admitted) sid ctry name color draws where "e = JoinGame sid ctry name color draws"
      "find (\<lambda>p. p_name p = name) (players s) = None" "toLowerCase name \<noteq> ''admin''"
      "fst (handleEvent_p0 e s) = fst (admit_p0 sid ctry name color s)"
  | (claim) sid squareId where "e = ClaimSquare sid squareId"
      "fst (handleEvent_p0 e s) = fst (claimSquare_p0 sid squareId s)"
  | (disconnect) sid where "e = Disconnect sid" "fst (handleEvent_p0 e s) = fst (disconnect_p0 sid s)"
  | (gameTick) "e = GameTick" "gameInterval s = Some Running"
      "fst (handleEvent_p0 e s) = fst (gameTick_p0 s)"
  | (cooldownTick) "e = CooldownTick" "0 < countdownIntervals s"
      "fst (handleEvent_p0 e s) = fst (cooldownTick_p0 s)"
proof (cases e)
  case (Connection sid)
  with connection show ?thesis by (simp add: connection_p0_def)
next
  case (JoinGame sid ctry name color draws)
  show ?thesis
  proof (cases "find (\<lambda>p. p_name p = name) (players s)")
    case (Some q)
    with JoinGame connection show ?thesis by (simp add: joinGame_p0_def)
  next
    case None
    show ?thesis
    proof (cases "toLowerCase name = ''admin''")
      case True
      with None JoinGame connection show ?thesis by (simp add: joinGame_p0_def)
    next
      case False
      with None JoinGame admitted show ?thesis by (simp add: joinGame_p0_def)
    qed
  qed
next
  case (ClaimSquare sid squareId)
  with claim show ?thesis by auto
next
  case (Disconnect sid)
  with disconnect show ?thesis by auto
next
  case GameTick
  with gameTick connection show ?thesis by (cases "gameInterval s = Some Running") auto
next
  case CooldownTick
  with cooldownTick connection show ?thesis by (cases "0 < countdownIntervals s") auto
qed

subsection \<open>What a handler leaves alone\<close>

lemma claimSquare_fields [simp]:
  "timeLeft (fst (claimSquare sid q s)) = timeLeft s"
  "gameInterval (fst (claimSquare sid q s)) = gameInterval s"
  "winner (fst (claimSquare sid q s)) = winner s"
  "countdown (fst (claimSquare sid q s)) = countdown s"
  "adminId (fst (claimSquare sid q s)) = adminId s"
  "countdownIntervals (fst (claimSquare sid q s)) = countdownIntervals s"
  "map p_id (players (fst (claimSquare sid q s))) = map p_id (players s)"
  "map p_name (players (fst (claimSquare sid q s))) = map p_name (players s)"
  "map p_color (players (fst (claimSquare sid q s))) = map p_color (players s)"
  by (simp_all add: claimSquare_eq o_def split: option.splits)

lemma claimSquare_p0_fields [simp]:
  "timeLeft (fst (claimSquare_p0 sid q s)) = timeLeft s"
  "gameInterval (fst (claimSquare_p0 sid q s)) = gameInterval s"
  "winner (fst (claimSquare_p0 sid q s)) = winner s"
  "countdown (fst (claimSquare_p0 sid q s)) = countdown s"
  "adminId (fst (claimSquare_p0 sid q s)) = adminId s"
  "countdownIntervals (fst (claimSquare_p0 sid q s)) = countdownIntervals s"
  "map p_id (players (fst (claimSquare_p0 sid q s))) = map p_id (players s)"
  "map p_name (players (fst (claimSquare_p0 sid q s))) = map p_name (players s)"
  "map p_color (players (fst (claimSquare_p0 sid q s))) = map p_color (players s)"
  by (simp_all add: claimSquare_p0_eq o_def split: option.splits)

lemma same_map_empty: "map f xs = map f ys \<Longrightarrow> xs = [] \<longleftrightarrow> ys = []"
  by (metis map_is_Nil_conv)

subsection \<open>Timers and roster\<close>

lemma timersOk_cong:
  "gameInterval s' = gameInterval s \<Longrightarrow> countdown s' = countdown s \<Longrightarrow>
   map p_id (players s') = map p_id (players s) \<Longrightarrow> timersOk s' = timersOk s"
  using same_map_empty [of p_id "players s'" "players s"] by (simp add: timersOk_def)

lemma timersOk_step:
  assumes "timersOk s" and "handleEvent e s = Some (s', out)"
  shows "timersOk s'"
  using assms(2)
proof (cases rule: handleEvent_cases)
  case (connection sid)
  with assms(1) show ?thesis by (simp add: connection_eq timersOk_def)
next
  case (rejected sid ctry name color draws)
  with assms(1) show ?thesis by simp
next
  case (admitted sid ctry name color draws c)
  with assms(1) show ?thesis by (simp add: admit_eq timersOk_def)
next
  case (claim sid squareId)
  have "timersOk s' = timersOk s"
    unfolding claim(2) by (rule timersOk_cong) simp_all
  with assms(1) show ?thesis by simp
next
  case (disconnect sid)
  show ?thesis
  proof (cases "gameInterval s")
    case None
    with assms(1) disconnect show ?thesis
      by (simp add: disconnect_eq lobby_def timersOk_def Let_def promote_players)
  next
    case (Some a)
    with assms(1) disconnect show ?thesis
      by (simp add: disconnect_eq lobby_def timersOk_def Let_def)
  qed
next
  case gameTick
  with assms(1) show ?thesis
    by (simp add: gameTick_eq timersOk_def clearInterval_def)
next
  case cooldownTick
  with assms(1) show ?thesis
    by (simp add: cooldownTick_eq timersOk_def)
next
  case idle
  with assms(1) show ?thesis by simp
qed

lemma timersOk_init: "timersOk init"
  by (simp add: timersOk_def init_def)

lemma timersOk_run: "run evs init = Some s \<Longrightarrow> timersOk s"
  using run_invariant [of evs init s timersOk] timersOk_init timersOk_step by blast

lemma timersOk_p0_cong:
  "gameInterval s' = gameInterval s \<Longrightarrow> countdown s' = countdown s \<Longrightarrow>
   map p_id (players s') = map p_id (players s) \<Longrightarrow> timersOk_p0 s' = timersOk_p0 s"
  by (simp add: timersOk_p0_def)

lemma timersOk_p0_step:
  assumes "timersOk_p0 s"
  shows "timersOk_p0 (fst (handleEvent_p0 e s))"
proof (cases e s rule: handleEvent_p0_cases)
  case connection
  with assms show ?thesis by simp
next
  case (admitted sid ctry name color draws)
  show ?thesis
    unfolding admitted(4) using assms
    by (cases "gameInterval s") (simp_all add: admit_p0_eq timersOk_p0_def)
next
  case (claim sid squareId)
  have "timersOk_p0 (fst (claimSquare_p0 sid squareId s)) = timersOk_p0 s"
    by (rule timersOk_p0_cong) simp_all
  with assms show ?thesis unfolding claim(2) by simp
next
  case (disconnect sid)
  show ?thesis
    unfolding disconnect(2) using assms
    by (simp add: disconnect_p0_eq lobby_def timersOk_p0_def Let_def o_def)
next
  case gameTick
  show ?thesis
    unfolding gameTick(3) using assms gameTick(2)
    by (simp add: gameTick_p0_eq timersOk_p0_def clearInterval_def)
next
  case cooldownTick
  show ?thesis
    unfolding cooldownTick(3) using assms
    by (simp add: cooldownTick_p0_eq timersOk_p0_def)
qed

lemma timersOk_p0_run: "timersOk_p0 (run_p0 evs init_p0)"
proof (rule run_p0_invariant)
  show "timersOk_p0 init_p0"
    by (simp add: timersOk_p0_def init_p0_def adminPlayer_def)
qed (rule timersOk_p0_step)

lemma find_id_None: "sid \<notin> p_id ` set ps \<Longrightarrow> find (\<lambda>p. p_id p = sid) ps = None"
  by (auto simp: find_None_iff)

lemma not_Active: "phaseOf s \<noteq> Active \<Longrightarrow> gameInterval s = None \<or> gameInterval s = Some Cleared"
proof (cases "gameInterval s")
  case None
  then show ?thesis by simp
next
  case (Some a)
  assume "phaseOf s \<noteq> Active"
  with Some show ?thesis by (cases a) (simp_all add: phaseOf_def)
qed


subsection \<open>Ids and names in the roster\<close>

lemma updateFirst_map:
  "(\<And>x. g (f x) = g x) \<Longrightarrow> map g (updateFirst P f xs) = map g xs"
  by (induction xs) simp_all

lemma admit_roster:
  "map p_id (players (fst (admit sid ctry name c s))) = map p_id (players s) @ [sid]"
  "map p_name (players (fst (admit sid ctry name c s))) = map p_name (players s) @ [take 15 name]"
  by (simp_all add: admit_eq newPlayer_def o_def)

lemma admit_p0_roster:
  "map p_id (players (fst (admit_p0 sid ctry name c s))) = map p_id (players s) @ [sid]"
  "map p_name (players (fst (admit_p0 sid ctry name c s))) = map p_name (players s) @ [take 15 name]"
  by (simp_all add: admit_p0_eq newPlayer_p0_def o_def if_distrib cong: if_cong)

lemma promote_roster:
  "map p_id (players (fst (promote s))) = map p_id (players s)"
  "map p_name (players (fst (promote s))) = map p_name (players s)"
  by (simp_all add: promote_players split: list.splits)

lemma promote_empty: "players (fst (promote s)) = [] \<longleftrightarrow> players s = []"
  by (simp add: promote_players split: list.splits)

lemma disconnect_roster:
  "map p_id (players (fst (disconnect sid s))) = map p_id (filter (\<lambda>p. p_id p \<noteq> sid) (players s))"
  "map p_name (players (fst (disconnect sid s))) = map p_name (filter (\<lambda>p. p_id p \<noteq> sid) (players s))"
  by (simp_all add: disconnect_eq lobby_def Let_def promote_roster promote_empty o_def)

lemma disconnect_p0_roster:
  "map p_id (players (fst (disconnect_p0 sid s))) = map p_id (filter (\<lambda>p. p_id p \<noteq> sid) (players s))"
  "map p_name (players (fst (disconnect_p0 sid s))) = map p_name (filter (\<lambda>p. p_id p \<noteq> sid) (players s))"
  by (simp_all add: disconnect_p0_eq lobby_def Let_def o_def)

lemma gameTick_roster:
  "map p_id (players (fst (gameTick s))) = map p_id (players s)"
  "map p_name (players (fst (gameTick s))) = map p_name (players s)"
  by (simp_all add: gameTick_eq o_def)

lemma gameTick_p0_roster:
  "map p_id (players (fst (gameTick_p0 s))) = map p_id (players s)"
  "map p_name (players (fst (gameTick_p0 s))) = map p_name (players s)"
  by (simp_all add: gameTick_p0_eq o_def)

lemma cooldownTick_roster:
  "map p_id (players (fst (cooldownTick s))) = map p_id (players s)"
  "map p_name (players (fst (cooldownTick s))) = map p_name (players s)"
  by (simp_all add: cooldownTick_eq o_def)

lemma cooldownTick_p0_roster:
  "map p_id (players (fst (cooldownTick_p0 s))) = map p_id (players s)"
  "map p_name (players (fst (cooldownTick_p0 s))) = map p_name (players s)"
  by (simp_all add: cooldownTick_p0_eq o_def if_distrib cong: if_cong)

lemma connection_roster:
  "players (fst (connection sid s)) = players s"
  by (simp add: connection_eq)

lemma find_None_names:
  "find (\<lambda>p. p_name p = name) ps = None \<longleftrightarrow> name \<notin> set (map p_name ps)"
  by (auto simp: find_None_iff)

lemma names_step:
  assumes "distinct (map p_name (players s))" and "shortName e"
      and "handleEvent e s = Some (s', out)"
  shows "distinct (map p_name (players s'))"
  using assms(3)
proof (cases rule: handleEvent_cases)
  case (connection sid)
  with assms(1) show ?thesis by (simp add: connection_roster)
next
  case (rejected sid ctry name color draws)
  with assms(1) show ?thesis by simp
next
  case (admitted sid ctry name color draws c)
  with assms(2) have "take 15 name = name" by simp
  with admitted assms(1) show ?thesis
    by (simp add: admit_roster find_None_names)
next
  case (claim sid squareId)
  with assms(1) show ?thesis by simp
next
  case (disconnect sid)
  with assms(1) show ?thesis
    by (simp add: disconnect_roster distinct_map_filter)
next
  case gameTick
  with assms(1) show ?thesis by (simp add: gameTick_roster)
next
  case cooldownTick
  with assms(1) show ?thesis by (simp add: cooldownTick_roster)
next
  case idle
  with assms(1) show ?thesis by simp
qed

lemma names_p0_step:
  assumes "distinct (map p_name (players s))" and "shortName e"
  shows "distinct (map p_name (players (fst (handleEvent_p0 e s))))"
proof (cases e s rule: handleEvent_p0_cases)
  case connection
  with assms(1) show ?thesis by simp
next
  case (admitted sid ctry name color draws)
  with assms(2) have "take 15 name = name" by simp
  with admitted(2) assms(1) show ?thesis
    unfolding admitted(4) by (simp add: admit_p0_roster find_None_names)
next
  case (claim sid squareId)
  with assms(1) show ?thesis unfolding claim(2) by simp
next
  case (disconnect sid)
  with assms(1) show ?thesis
    unfolding disconnect(2) by (simp add: disconnect_p0_roster distinct_map_filter)
next
  case gameTick
  with assms(1) show ?thesis unfolding gameTick(3) by (simp add: gameTick_p0_roster)
next
  case cooldownTick
  with assms(1) show ?thesis unfolding cooldownTick(3) by (simp add: cooldownTick_p0_roster)
qed

lemma names_run:
  assumes "run evs s0 = Some s" and "distinct (map p_name (players s0))"
      and "\<forall>e \<in> set evs. shortName e"
  shows "distinct (map p_name (players s))"
  using assms
proof (induction evs arbitrary: s0)
  case Nil
  then show ?case by simp
next
  case (Cons e es)
  from Cons.prems(1) obtain s1 out where h: "handleEvent e s0 = Some (s1, out)"
      and r: "run es s1 = Some s"
    by (auto split: option.splits)
  from Cons.prems(3) have "shortName e" and rest: "\<forall>e \<in> set es. shortName e" by simp_all
  then have "distinct (map p_name (players s1))"
    using names_step [OF Cons.prems(2) _ h] by simp
  with Cons.IH [OF r _ rest] show ?case by simp
qed

lemma names_run_p0:
  assumes "distinct (map p_name (players s0))" and "\<forall>e \<in> set evs. shortName e"
  shows "distinct (map p_name (players (run_p0 evs s0)))"
  using assms
proof (induction evs arbitrary: s0)
  case Nil
  then show ?case by simp
next
  case (Cons e es)
  from Cons.prems(2) have "shortName e" and rest: "\<forall>e \<in> set es. shortName e" by simp_all
  then have "distinct (map p_name (players (fst (handleEvent_p0 e s0))))"
    using names_p0_step [OF Cons.prems(1)] by simp
  with Cons.IH [OF _ rest] show ?case by simp
qed

lemma pickColor_Some:
  "(\<exists>c \<in> set draws. c \<notin> p_color ` set ps) \<Longrightarrow> \<exists>c. pickColor draws ps = Some c"
  by (induction draws) auto

subsection \<open>Scores and owned cells\<close>

lemma scoreOf_upd: "scoreOf (m(k \<mapsto> v)) i = (if i = k then v else scoreOf m i)"
  by (simp add: scoreOf_def)

lemma scoreOf_countSquare:
  "scoreOf (countSquare c m) i =
     (if ownerId c \<noteq> [] \<and> ownerId c = i then scoreOf m i + 1 else scoreOf m i)"
  by (simp add: countSquare_def scoreOf_def)

lemma scoreOf_fold_countSquare:
  "scoreOf (fold countSquare cs m) i =
     (if i = [] then scoreOf m i
      else scoreOf m i + int (length (filter (\<lambda>c. ownerId c = i) cs)))"
proof (induction cs arbitrary: m)
  case Nil
  then show ?case by simp
next
  case (Cons c cs)
  show ?case
    by (simp add: Cons scoreOf_countSquare)
qed

lemma scoreOf_zeros:
  "scoreOf m0 i = 0 \<Longrightarrow> scoreOf (fold (\<lambda>p m. m(p_id p \<mapsto> 0)) ps m0) i = 0"
  by (induction ps arbitrary: m0) (simp_all add: scoreOf_upd)

lemma scoreOf_tally: "scoreOf (tally g Map.empty) i = (if i = [] then 0 else int (owned g i))"
  by (simp add: tally_def scoreOf_fold_countSquare owned_def) (simp add: scoreOf_def)

lemma scoreOf_endScores: "scoreOf (endScores s) i = (if i = [] then 0 else int (owned (grid s) i))"
proof -
  have "scoreOf (fold (\<lambda>p m. m(p_id p \<mapsto> 0)) (players s) Map.empty) j = 0" for j
    by (rule scoreOf_zeros) (simp add: scoreOf_def)
  then show ?thesis
    by (simp add: endScores_def tally_def scoreOf_fold_countSquare owned_def)
qed

lemma sidOk_nonempty: "sidOk i \<Longrightarrow> i \<noteq> []"
  by (simp add: sidOk_def)

lemma calculateScores_consistent:
  "\<forall>p \<in> set (players s). p_id p \<noteq> [] \<Longrightarrow> scoresConsistent (calculateScores s)"
  by (simp add: scoresConsistent_def scoreOf_tally)

lemma calculateScores_scoreInv:
  "idsOk s \<Longrightarrow> hasZero (grid s) \<Longrightarrow> scoreInv (calculateScores s)"
  using calculateScores_consistent [of s]
  by (simp add: scoreInv_def idsOk_def o_def sidOk_def)

subsection \<open>Cell 0 is never a hole\<close>

lemma setElem_hd: "\<exists>sq' rest'. setElem n v (Some sq # rest) = Some sq' # rest'"
  by (cases n) (simp_all add: setElem_def)

lemma hasZero_assign:
  assumes "hasZero g"
  shows "hasZero (assign g k v)"
proof (cases "elementIndex k")
  case None
  with assms show ?thesis by (simp add: assign_def hasZero_def)
next
  case (Some n)
  from assms obtain sq rest where "elems g = Some sq # rest"
    by (auto simp: hasZero_def)
  with Some setElem_hd [of n v sq rest] show ?thesis
    by (simp add: assign_def hasZero_def)
qed

lemma hasZero_mapIndexed:
  "hasZero g \<Longrightarrow> hasZero \<lparr>elems = mapIndexed f k (elems g), props = ps\<rparr>"
  by (auto simp: hasZero_def)

lemma hasZero_resetGrid: "hasZero g \<Longrightarrow> hasZero (resetGrid g)"
  by (simp add: resetGrid_def hasZero_mapIndexed)

lemma hasZero_startGameTimer: "hasZero (grid s) \<Longrightarrow> hasZero (grid (fst (startGameTimer s)))"
  by (simp add: startGameTimer_grid hasZero_mapIndexed)

lemma hasZero_promote: "hasZero (grid s) \<Longrightarrow> hasZero (grid (fst (promote s)))"
  by (simp add: promote_grid hasZero_assign split: list.splits)

subsection \<open>The grid after a reset\<close>

lemma present_blank:
  "0 < k \<Longrightarrow> c \<in> set (present (mapIndexed (\<lambda>i. if i = 0 then a else blankSquare i) k xs)) \<Longrightarrow>
   ownerId c = []"
proof (induction xs arbitrary: k)
  case Nil
  then show ?case by simp
next
  case (Cons x xs)
  show ?case
  proof (cases x)
    case None
    with Cons.prems Cons.IH [of "Suc k"] show ?thesis by simp
  next
    case (Some sq)
    with Cons.prems have "c = blankSquare k \<or>
        c \<in> set (present (mapIndexed (\<lambda>i. if i = 0 then a else blankSquare i) (Suc k) xs))"
      by auto
    then show ?thesis
      using Cons.IH [of "Suc k"] by (auto simp: blankSquare_def)
  qed
qed

lemma owned_reset:
  assumes "hasZero g" and "i \<noteq> []"
  shows "owned \<lparr>elems = mapIndexed (\<lambda>i. if i = 0 then a else blankSquare i) 0 (elems g), props = ps\<rparr> i =
           (if ownerId a = i then 1 else 0)"
proof -
  from assms(1) obtain sq rest where g: "elems g = Some sq # rest"
    by (auto simp: hasZero_def)
  have "filter (\<lambda>c. ownerId c = i)
          (present (mapIndexed (\<lambda>i. if i = 0 then a else blankSquare i) (Suc 0) rest)) = []"
    using present_blank [of "Suc 0" _ a rest] assms(2) by (auto simp: filter_empty_conv)
  then show ?thesis
    by (simp add: owned_def cells_def g)
qed

lemma adminCell_owner:
  "sidOk i \<Longrightarrow> ownerId (adminCell s) = i \<longleftrightarrow> Some i = adminId s"
  by (auto simp: adminCell_def sidOk_def split: option.splits)

lemma startGameTimer_scoreInv:
  assumes "idsOk s" and "hasZero (grid s)"
  shows "scoreInv (fst (startGameTimer s))"
proof -
  have "p_score p = int (owned (grid (fst (startGameTimer s))) (p_id p))"
    if "p \<in> set (players (fst (startGameTimer s)))" for p
  proof -
    from that obtain q where q: "q \<in> set (players s)"
        and p: "p = q\<lparr>p_score := (if Some (p_id q) = adminId s then 1 else 0)\<rparr>"
      by auto
    from q assms(1) have ok: "sidOk (p_id q)" by (simp add: idsOk_def)
    then have "owned (grid (fst (startGameTimer s))) (p_id q) =
        (if ownerId (adminCell s) = p_id q then 1 else 0)"
      using owned_reset [OF assms(2), of "p_id q" "adminCell s" "[]"]
      by (simp add: startGameTimer_grid sidOk_def)
    with ok p show ?thesis
      by (simp add: adminCell_owner)
  qed
  then have "scoresConsistent (fst (startGameTimer s))"
    unfolding scoresConsistent_def by blast
  moreover have "idsOk (fst (startGameTimer s))"
    using assms(1) by (simp add: idsOk_def o_def)
  ultimately show ?thesis
    using hasZero_startGameTimer [OF assms(2)] by (simp add: scoreInv_def)
qed

lemma scoreInv_cong:
  "players s' = players s \<Longrightarrow> grid s' = grid s \<Longrightarrow> scoreInv s' = scoreInv s"
  by (simp add: scoreInv_def scoresConsistent_def idsOk_def)

lemma idsOk_cong: "map p_id (players s') = map p_id (players s) \<Longrightarrow> idsOk s' = idsOk s"
  by (simp add: idsOk_def)

lemma idsOk_filter:
  "idsOk s \<Longrightarrow> map p_id (players s') = map p_id (filter P (players s)) \<Longrightarrow> idsOk s'"
  by (auto simp: idsOk_def)

lemma endGame_scoreInv:
  assumes "idsOk s" and "hasZero (grid s)"
  shows "scoreInv (fst (endGame s))"
proof -
  have "p_score p = int (owned (grid (fst (endGame s))) (p_id p))"
    if "p \<in> set (players (fst (endGame s)))" for p
  proof -
    from that obtain q where q: "q \<in> set (players s)"
        and p: "p = q\<lparr>p_score := scoreOf (endScores s) (p_id q)\<rparr>"
      by auto
    from q assms(1) have "p_id q \<noteq> []" by (simp add: idsOk_def sidOk_def)
    with p show ?thesis by (simp add: scoreOf_endScores)
  qed
  then have "scoresConsistent (fst (endGame s))"
    unfolding scoresConsistent_def by blast
  moreover have "idsOk (fst (endGame s))"
    using assms(1) by (simp add: idsOk_def o_def)
  ultimately show ?thesis
    using assms(2) by (simp add: scoreInv_def)
qed

lemma admit_scoreInv:
  assumes "scoreInv s" and "sidOk sid"
  shows "scoreInv (fst (admit sid ctry name c s))"
proof -
  let ?s1 = "s\<lparr>players := players s @ [newPlayer sid ctry name c s]\<rparr>"
  let ?x = "if gameInterval s = None then fst (startGameTimer ?s1) else ?s1"
  from assms have i1: "idsOk ?s1"
    by (simp add: scoreInv_def idsOk_def newPlayer_def)
  from assms have z1: "hasZero (grid ?s1)"
    by (simp add: scoreInv_def)
  have "idsOk ?x"
    using i1 by (simp add: idsOk_def o_def)
  moreover have "hasZero (grid ?x)"
    using z1 hasZero_startGameTimer [of ?s1] by simp
  ultimately have "scoreInv (calculateScores ?x)"
    by (rule calculateScores_scoreInv)
  then show ?thesis by (simp add: admit_eq)
qed

lemma claimSquare_scoreInv:
  assumes "scoreInv s"
  shows "scoreInv (fst (claimSquare sid q s))"
proof -
  have "scoreInv (calculateScores (s\<lparr>grid := assign (grid s) q v\<rparr>))" for v
  proof (rule calculateScores_scoreInv)
    show "idsOk (s\<lparr>grid := assign (grid s) q v\<rparr>)"
      using assms by (simp add: scoreInv_def idsOk_def)
    show "hasZero (grid (s\<lparr>grid := assign (grid s) q v\<rparr>))"
      using assms by (simp add: scoreInv_def hasZero_assign)
  qed
  with assms show ?thesis
    by (simp add: claimSquare_eq split: option.splits)
qed

lemma lobby_scoreInv: "players s = [] \<Longrightarrow> hasZero (grid s) \<Longrightarrow> scoreInv (lobby s)"
  by (simp add: lobby_def scoreInv_def scoresConsistent_def idsOk_def hasZero_resetGrid)

lemma disconnect_scoreInv:
  assumes "scoreInv s"
  shows "scoreInv (fst (disconnect sid s))"
proof -
  let ?s1 = "s\<lparr>players := filter (\<lambda>p. p_id p \<noteq> sid) (players s)\<rparr>"
  let ?s2 = "if Some sid = adminId s then fst (promote ?s1) else ?s1"
  from assms have i1: "idsOk ?s1"
    by (auto simp: scoreInv_def idsOk_def)
  have "map p_id (players ?s2) = map p_id (players ?s1)"
    by (simp add: promote_roster)
  with i1 have i2: "idsOk ?s2"
    using idsOk_cong [of ?s2 ?s1] by simp
  from assms have "hasZero (grid ?s1)"
    by (simp add: scoreInv_def)
  then have z2: "hasZero (grid ?s2)"
    using hasZero_promote [of ?s1] by simp
  have "scoreInv (if players ?s2 = [] then lobby ?s2 else calculateScores ?s2)"
    using i2 z2 lobby_scoreInv [of ?s2] calculateScores_scoreInv [of ?s2] by simp
  then show ?thesis
    by (simp add: disconnect_eq Let_def)
qed

lemma gameTick_scoreInv:
  assumes "scoreInv s"
  shows "scoreInv (fst (gameTick s))"
proof (cases "timeLeft s - 1 \<le> 0")
  case True
  have "scoreInv (fst (endGame (s\<lparr>timeLeft := timeLeft s - 1\<rparr>)))"
    using assms by (intro endGame_scoreInv) (simp_all add: scoreInv_def idsOk_def)
  with True show ?thesis by (simp add: gameTick_eq)
next
  case False
  have "scoreInv (s\<lparr>timeLeft := timeLeft s - 1\<rparr>) = scoreInv s"
    by (rule scoreInv_cong) simp_all
  with False assms show ?thesis by (simp add: gameTick_eq)
qed

lemma cooldownTick_scoreInv:
  assumes "scoreInv s"
  shows "scoreInv (fst (cooldownTick s))"
proof (cases "ticked s \<le> 0")
  case True
  have "scoreInv (fst (startGameTimer (s\<lparr>countdown := Some (ticked s),
                         countdownIntervals := countdownIntervals s - 1\<rparr>)))"
    using assms by (intro startGameTimer_scoreInv) (simp_all add: scoreInv_def idsOk_def)
  with True show ?thesis by (simp add: cooldownTick_eq)
next
  case False
  have "scoreInv (s\<lparr>countdown := Some (ticked s)\<rparr>) = scoreInv s"
    by (rule scoreInv_cong) simp_all
  with False assms show ?thesis by (simp add: cooldownTick_eq)
qed

lemma connection_scoreInv: "scoreInv s \<Longrightarrow> scoreInv (fst (connection sid s))"
  using scoreInv_cong [of "s\<lparr>adminId := Some sid\<rparr>" s] by (simp add: connection_eq)

lemma scoreInv_step:
  assumes "scoreInv s" and "validEvent e" and "handleEvent e s = Some (s', out)"
  shows "scoreInv s'"
  using assms(3)
proof (cases rule: handleEvent_cases)
  case (connection sid)
  with assms(1) show ?thesis by (simp add: connection_scoreInv)
next
  case (rejected sid ctry name color draws)
  with assms(1) show ?thesis by simp
next
  case (admitted sid ctry name color draws c)
  with assms(2) have "sidOk sid" by simp
  with admitted assms(1) show ?thesis by (simp add: admit_scoreInv)
next
  case (claim sid squareId)
  with assms(1) show ?thesis by (simp add: claimSquare_scoreInv)
next
  case (disconnect sid)
  with assms(1) show ?thesis by (simp add: disconnect_scoreInv)
next
  case gameTick
  with assms(1) show ?thesis by (simp add: gameTick_scoreInv)
next
  case cooldownTick
  with assms(1) show ?thesis by (simp add: cooldownTick_scoreInv)
next
  case idle
  with assms(1) show ?thesis by simp
qed

lemma scoreInv_init: "scoreInv init"
  by (simp add: scoreInv_def scoresConsistent_def idsOk_def hasZero_def init_def initGrid_def)

lemma scoreInv_run:
  assumes "run evs init = Some s" and "\<forall>e \<in> set evs. validEvent e"
  shows "scoreInv s"
proof (rule run_invariant [OF assms(1), of scoreInv])
  show "scoreInv init" by (rule scoreInv_init)
next
  fix e t t' out
  assume "scoreInv t" and "e \<in> set evs" and "handleEvent e t = Some (t', out)"
  with assms(2) show "scoreInv t'"
    using scoreInv_step [of t e t' out] by blast
qed

subsection \<open>The static admin owns cell 0 and nothing else\<close>

lemma gridAdmin_hasZero: "gridAdmin g \<Longrightarrow> hasZero g"
  by (auto simp: gridAdmin_def hasZero_def)

lemma gridAdmin_owned: "gridAdmin g \<Longrightarrow> owned g ''admin'' = 1"
  by (auto simp: gridAdmin_def owned_def cells_def filter_empty_conv)

lemma gridAdmin_resetGrid:
  assumes "hasZero g"
  shows "gridAdmin (resetGrid g)"
proof -
  from assms obtain sq rest where g: "elems g = Some sq # rest"
    by (auto simp: hasZero_def)
  have "ownerId c \<noteq> ''admin''"
    if "c \<in> set (present (mapIndexed (\<lambda>i. if i = 0 then adminSquare else blankSquare i) (Suc 0) rest))"
    for c
    using present_blank [of "Suc 0" c adminSquare rest] that by simp
  then show ?thesis
    unfolding gridAdmin_def by (simp add: resetGrid_def g adminSquare_def)
qed

lemma owned_resetGrid:
  "hasZero g \<Longrightarrow> i \<noteq> [] \<Longrightarrow> owned (resetGrid g) i = (if i = ''admin'' then 1 else 0)"
  using owned_reset [of g i adminSquare "[]"]
  by (auto simp: resetGrid_def adminSquare_def)

lemma present_append: "present (xs @ ys) = present xs @ present ys"
  by (induction xs rule: present.induct) simp_all

lemma present_replicate_None: "present (replicate n None) = []"
  by (induction n) simp_all

lemma present_update: "set (present (xs[k := Some v])) \<subseteq> insert v (set (present xs))"
proof (induction xs arbitrary: k)
  case Nil
  then show ?case by simp
next
  case (Cons x xs)
  show ?case
  proof (cases k)
    case 0
    then show ?thesis by (cases x) auto
  next
    case (Suc j)
    with Cons.IH [of j] show ?thesis by (cases x) auto
  qed
qed

lemma present_setElem: "set (present (setElem k v xs)) \<subseteq> insert v (set (present xs))"
  using present_update [of xs k v]
  by (simp add: setElem_def present_append present_replicate_None)

lemma setElem_Suc: "setElem (Suc k) v (x # xs) = x # setElem k v xs"
  by (simp add: setElem_def)

lemma arrayIndex_zero: "arrayIndex k = Some 0 \<Longrightarrow> k = ''0''"
  by (auto simp: arrayIndex_def digitsOf.simps split: if_splits)

lemma elementIndex_zero:
  "elementIndex q = Some 0 \<Longrightarrow> q = JNum 0 \<or> slipsToZero q"
  by (cases q) (auto simp: isArrayIndex_def dest: arrayIndex_zero split: if_splits)

lemma gridAdmin_assign:
  assumes "gridAdmin g" and "q \<noteq> JNum 0" and "\<not> slipsToZero q" and "ownerId v \<noteq> ''admin''"
  shows "gridAdmin (assign g q v)"
proof (cases "elementIndex q")
  case None
  with assms(1) show ?thesis by (simp add: assign_def gridAdmin_def)
next
  case (Some n)
  with assms(2,3) elementIndex_zero [of q] obtain k where k: "n = Suc k"
    by (cases n) auto
  from assms(1) obtain sq rest where g: "elems g = Some sq # rest" "ownerId sq = ''admin''"
      "\<forall>c \<in> set (present rest). ownerId c \<noteq> ''admin''"
    by (auto simp: gridAdmin_def)
  have "\<forall>c \<in> set (present (setElem k v rest)). ownerId c \<noteq> ''admin''"
    using present_setElem [of k v rest] g(3) assms(4) by auto
  with Some k g show ?thesis
    by (simp add: assign_def gridAdmin_def setElem_Suc)
qed

subsection \<open>Scores in the static-admin variant\<close>

lemma rosterOk_p0_ids:
  assumes "rosterOk_p0 s" and "p \<in> set (players s)"
  shows "p_id p \<noteq> []"
proof (cases "isAdmin p = Some True")
  case True
  with assms have "p_id p = ''admin''"
    unfolding rosterOk_p0_def by blast
  then show ?thesis by simp
next
  case False
  with assms have "sidOk (p_id p)"
    unfolding rosterOk_p0_def by blast
  then show ?thesis by (simp add: sidOk_def)
qed

lemma rosterOk_p0_scores:
  "players s' = map (\<lambda>p. p\<lparr>p_score := f p\<rparr>) (players s) \<Longrightarrow> rosterOk_p0 s' = rosterOk_p0 s"
  by (simp add: rosterOk_p0_def)

lemma calculateScores_scoreInv_p0:
  assumes "rosterOk_p0 s" and "gridAdmin (grid s)"
  shows "scoreInv_p0 (calculateScores s)"
proof -
  have "scoresConsistent (calculateScores s)"
    using rosterOk_p0_ids [OF assms(1)] by (intro calculateScores_consistent) blast
  moreover have "rosterOk_p0 (calculateScores s)"
    using assms(1)
      rosterOk_p0_scores [of "calculateScores s" "\<lambda>p. scoreOf (tally (grid s) Map.empty) (p_id p)" s]
    by simp
  ultimately show ?thesis
    using assms(2) by (simp add: scoreInv_p0_def)
qed

lemma startGameTimer_p0_roster:
  assumes "rosterOk_p0 s"
  shows "rosterOk_p0 (fst (startGameTimer_p0 s))"
proof -
  have "(isAdmin p = Some True \<longrightarrow> p_id p = ''admin'')
      \<and> (isAdmin p \<noteq> Some True \<longrightarrow> sidOk (p_id p))"
    if "p \<in> set (players (fst (startGameTimer_p0 s)))" for p
  proof -
    from that obtain q where q: "q \<in> set (players s)"
        and p: "p = (if isAdmin q \<noteq> Some True then q\<lparr>p_score := 0\<rparr> else q)"
      by auto
    from q assms have "(isAdmin q = Some True \<longrightarrow> p_id q = ''admin'')
      \<and> (isAdmin q \<noteq> Some True \<longrightarrow> sidOk (p_id q))"
      unfolding rosterOk_p0_def by blast
    with p show ?thesis by simp
  qed
  then show ?thesis
    unfolding rosterOk_p0_def by blast
qed

lemma startGameTimer_p0_scoreInv:
  assumes "scoreInv_p0 s"
  shows "scoreInv_p0 (fst (startGameTimer_p0 s))"
proof -
  from assms have sc: "scoresConsistent s" and ro: "rosterOk_p0 s" and ga: "gridAdmin (grid s)"
    by (simp_all add: scoreInv_p0_def)
  have hz: "hasZero (grid s)" using ga by (rule gridAdmin_hasZero)
  have "p_score p = int (owned (grid (fst (startGameTimer_p0 s))) (p_id p))"
    if "p \<in> set (players (fst (startGameTimer_p0 s)))" for p
  proof -
    from that obtain q where q: "q \<in> set (players s)"
        and p: "p = (if isAdmin q \<noteq> Some True then q\<lparr>p_score := 0\<rparr> else q)"
      by auto
    show ?thesis
    proof (cases "isAdmin q = Some True")
      case True
      with q ro have i: "p_id q = ''admin''" unfolding rosterOk_p0_def by blast
      from q sc have "p_score q = int (owned (grid s) (p_id q))"
        by (simp add: scoresConsistent_def)
      with i ga have "p_score q = 1" by (simp add: gridAdmin_owned)
      with True p i hz show ?thesis by (simp add: owned_resetGrid)
    next
      case False
      with q ro have "sidOk (p_id q)" unfolding rosterOk_p0_def by blast
      with False p hz show ?thesis by (simp add: owned_resetGrid sidOk_def)
    qed
  qed
  then have "scoresConsistent (fst (startGameTimer_p0 s))"
    unfolding scoresConsistent_def by blast
  then show ?thesis
    using startGameTimer_p0_roster [OF ro] gridAdmin_resetGrid [OF hz]
    by (simp add: scoreInv_p0_def)
qed

lemma endGame_p0_scoreInv:
  assumes "scoreInv_p0 s"
  shows "scoreInv_p0 (fst (endGame_p0 s))"
proof -
  from assms have ro: "rosterOk_p0 s" and ga: "gridAdmin (grid s)"
    by (simp_all add: scoreInv_p0_def)
  have "p_score p = int (owned (grid (fst (endGame_p0 s))) (p_id p))"
    if "p \<in> set (players (fst (endGame_p0 s)))" for p
  proof -
    from that obtain q where q: "q \<in> set (players s)"
        and p: "p = q\<lparr>p_score := scoreOf (endScores s) (p_id q)\<rparr>"
      by auto
    from q ro have "p_id q \<noteq> []" by (rule rosterOk_p0_ids [rotated])
    with p show ?thesis by (simp add: scoreOf_endScores)
  qed
  then have "scoresConsistent (fst (endGame_p0 s))"
    unfolding scoresConsistent_def by blast
  moreover have "rosterOk_p0 (fst (endGame_p0 s))"
    using ro rosterOk_p0_scores [of "fst (endGame_p0 s)" "\<lambda>p. scoreOf (endScores s) (p_id p)" s]
    by simp
  ultimately show ?thesis
    using ga by (simp add: scoreInv_p0_def)
qed

lemma scoreInv_p0_cong:
  "players s' = players s \<Longrightarrow> grid s' = grid s \<Longrightarrow> scoreInv_p0 s' = scoreInv_p0 s"
  by (simp add: scoreInv_p0_def scoresConsistent_def rosterOk_p0_def)

lemma admit_p0_scoreInv:
  assumes "scoreInv_p0 s" and "sidOk sid"
  shows "scoreInv_p0 (fst (admit_p0 sid ctry name c s))"
proof -
  let ?s1 = "s\<lparr>players := players s @ [newPlayer_p0 sid ctry name c]\<rparr>"
  let ?x = "if gameInterval s = None then fst (startGameTimer_p0 ?s1) else ?s1"
  from assms have r1: "rosterOk_p0 ?s1"
    by (simp add: scoreInv_p0_def rosterOk_p0_def newPlayer_p0_def)
  from assms have g1: "gridAdmin (grid ?s1)"
    by (simp add: scoreInv_p0_def)
  have "rosterOk_p0 ?x"
    using r1 startGameTimer_p0_roster [of ?s1] by simp
  moreover have "gridAdmin (grid ?x)"
    using g1 gridAdmin_resetGrid [OF gridAdmin_hasZero [OF g1]] by simp
  ultimately have "scoreInv_p0 (calculateScores ?x)"
    by (rule calculateScores_scoreInv_p0)
  then show ?thesis by (simp add: admit_p0_eq)
qed

lemma find_Some_id: "find (\<lambda>p. p_id p = sid) ps = Some p \<Longrightarrow> p_id p = sid"
  by (auto simp: find_Some_iff)

lemma claimSquare_p0_scoreInv:
  assumes "scoreInv_p0 s" and "sidOk sid" and "\<not> slipsToZero q"
  shows "scoreInv_p0 (fst (claimSquare_p0 sid q s))"
proof (cases "countdown s \<noteq> None \<or> winner s \<noteq> Null \<or> q = JNum 0")
  case True
  with assms(1) show ?thesis by (simp add: claimSquare_p0_eq)
next
  case False
  show ?thesis
  proof (cases "find (\<lambda>p. p_id p = sid) (players s)")
    case None
    with False assms(1) show ?thesis by (simp add: claimSquare_p0_eq)
  next
    case (Some p)
    then have "p_id p = sid" by (rule find_Some_id)
    with assms(2) have o: "ownerId (claimed p q) \<noteq> ''admin''"
      by (simp add: claimed_def sidOk_def)
    from False have q: "q \<noteq> JNum 0" by simp
    have "scoreInv_p0 (calculateScores (s\<lparr>grid := assign (grid s) q (claimed p q)\<rparr>))"
    proof (rule calculateScores_scoreInv_p0)
      show "rosterOk_p0 (s\<lparr>grid := assign (grid s) q (claimed p q)\<rparr>)"
        using assms(1) by (simp add: scoreInv_p0_def rosterOk_p0_def)
      show "gridAdmin (grid (s\<lparr>grid := assign (grid s) q (claimed p q)\<rparr>))"
        using assms(1) gridAdmin_assign [OF _ q assms(3) o, of "grid s"]
        by (simp add: scoreInv_p0_def)
    qed
    with False Some show ?thesis by (simp add: claimSquare_p0_eq)
  qed
qed

lemma disconnect_p0_scoreInv:
  assumes "scoreInv_p0 s"
  shows "scoreInv_p0 (fst (disconnect_p0 sid s))"
proof -
  let ?s1 = "s\<lparr>players := filter (\<lambda>p. p_id p \<noteq> sid) (players s)\<rparr>"
  from assms have r1: "rosterOk_p0 ?s1"
    by (simp add: scoreInv_p0_def rosterOk_p0_def)
  from assms have g1: "gridAdmin (grid ?s1)"
    by (simp add: scoreInv_p0_def)
  show ?thesis
  proof (cases "players ?s1 = []")
    case True
    then have "scoreInv_p0 (lobby ?s1)"
      using gridAdmin_resetGrid [OF gridAdmin_hasZero [OF g1]]
      by (simp add: lobby_def scoreInv_p0_def scoresConsistent_def rosterOk_p0_def)
    with True show ?thesis by (simp add: disconnect_p0_eq Let_def)
  next
    case False
    have "scoreInv_p0 (calculateScores ?s1)"
      using r1 g1 by (rule calculateScores_scoreInv_p0)
    with False show ?thesis by (simp add: disconnect_p0_eq Let_def)
  qed
qed

lemma gameTick_p0_scoreInv:
  assumes "scoreInv_p0 s"
  shows "scoreInv_p0 (fst (gameTick_p0 s))"
proof (cases "timeLeft s - 1 \<le> 0")
  case True
  have "scoreInv_p0 (s\<lparr>timeLeft := timeLeft s - 1\<rparr>) = scoreInv_p0 s"
    by (rule scoreInv_p0_cong) simp_all
  with assms have "scoreInv_p0 (fst (endGame_p0 (s\<lparr>timeLeft := timeLeft s - 1\<rparr>)))"
    by (intro endGame_p0_scoreInv) simp
  with True show ?thesis by (simp add: gameTick_p0_eq)
next
  case False
  have "scoreInv_p0 (s\<lparr>timeLeft := timeLeft s - 1\<rparr>) = scoreInv_p0 s"
    by (rule scoreInv_p0_cong) simp_all
  with False assms show ?thesis by (simp add: gameTick_p0_eq)
qed

lemma cooldownTick_p0_scoreInv:
  assumes "scoreInv_p0 s"
  shows "scoreInv_p0 (fst (cooldownTick_p0 s))"
proof (cases "ticked s \<le> 0")
  case True
  have "scoreInv_p0 (s\<lparr>countdown := Some (ticked s),
                        countdownIntervals := countdownIntervals s - 1\<rparr>) = scoreInv_p0 s"
    by (rule scoreInv_p0_cong) simp_all
  with assms have "scoreInv_p0 (fst (startGameTimer_p0 (s\<lparr>countdown := Some (ticked s),
                        countdownIntervals := countdownIntervals s - 1\<rparr>)))"
    by (intro startGameTimer_p0_scoreInv) simp
  with True show ?thesis by (simp add: cooldownTick_p0_eq)
next
  case False
  have "scoreInv_p0 (s\<lparr>countdown := Some (ticked s)\<rparr>) = scoreInv_p0 s"
    by (rule scoreInv_p0_cong) simp_all
  with False assms show ?thesis by (simp add: cooldownTick_p0_eq)
qed

lemma scoreInv_p0_step:
  assumes "scoreInv_p0 s" and "validEvent e" and "plainClaim e"
  shows "scoreInv_p0 (fst (handleEvent_p0 e s))"
proof (cases e s rule: handleEvent_p0_cases)
  case connection
  with assms(1) show ?thesis by simp
next
  case (admitted sid ctry name color draws)
  with assms(2) have "sidOk sid" by simp
  with assms(1) show ?thesis unfolding admitted(4) by (rule admit_p0_scoreInv)
next
  case (claim sid squareId)
  with assms(2,3) have "sidOk sid" and "\<not> slipsToZero squareId" by simp_all
  with assms(1) show ?thesis unfolding claim(2) by (rule claimSquare_p0_scoreInv)
next
  case (disconnect sid)
  from assms(1) show ?thesis unfolding disconnect(2) by (rule disconnect_p0_scoreInv)
next
  case gameTick
  from assms(1) show ?thesis unfolding gameTick(3) by (rule gameTick_p0_scoreInv)
next
  case cooldownTick
  from assms(1) show ?thesis unfolding cooldownTick(3) by (rule cooldownTick_p0_scoreInv)
qed

lemma present_map_Some: "present (map (\<lambda>i. Some (f i)) xs) = map f xs"
  by (induction xs) simp_all

lemma gridAdmin_initGrid: "gridAdmin initGrid"
  unfolding gridAdmin_def
  by (simp add: initGrid_def adminSquare_def present_map_Some blankSquare_def)

lemma scoreInv_p0_init: "scoreInv_p0 init_p0"
proof -
  have "owned initGrid ''admin'' = 1"
    using gridAdmin_initGrid by (rule gridAdmin_owned)
  then show ?thesis
    using gridAdmin_initGrid
    by (simp add: scoreInv_p0_def scoresConsistent_def rosterOk_p0_def init_p0_def adminPlayer_def)
qed

lemma scoreInv_p0_run:
  assumes "\<forall>e \<in> set evs. validEvent e" and "\<forall>e \<in> set evs. plainClaim e"
  shows "scoreInv_p0 (run_p0 evs init_p0)"
proof (rule run_p0_invariant)
  show "scoreInv_p0 init_p0" by (rule scoreInv_p0_init)
next
  fix e t
  assume "scoreInv_p0 t" and "e \<in> set evs"
  with assms show "scoreInv_p0 (fst (handleEvent_p0 e t))"
    using scoreInv_p0_step [of t e] by blast
qed

subsection \<open>The winner\<close>

lemma pickWinner_none:
  "\<forall>p \<in> set ps. p_score p \<le> m \<Longrightarrow>
   fold (\<lambda>p (maxScore, winningPlayer).
           if p_score p > maxScore then (p_score p, Some p) else (maxScore, winningPlayer))
        ps (m, w) = (m, w)"
  by (induction ps) simp_all

lemma pickWinner_first_highest:
  "\<exists>p \<in> set ps. m < p_score p \<Longrightarrow>
   \<exists>pre x post. ps = pre @ x # post
     \<and> fold (\<lambda>p (maxScore, winningPlayer).
           if p_score p > maxScore then (p_score p, Some p) else (maxScore, winningPlayer))
        ps (m, w) = (p_score x, Some x)
     \<and> m < p_score x
     \<and> (\<forall>p \<in> set pre. p_score p < p_score x)
     \<and> (\<forall>p \<in> set post. p_score p \<le> p_score x)"
proof (induction ps arbitrary: m w)
  case Nil
  then show ?case by simp
next
  case (Cons a ps)
  let ?step = "\<lambda>p (maxScore, winningPlayer).
           if p_score p > maxScore then (p_score p, Some p) else (maxScore, winningPlayer)"
  show ?case
  proof (cases "m < p_score a")
    case True
    show ?thesis
    proof (cases "\<exists>p \<in> set ps. p_score a < p_score p")
      case higher: True
      from Cons.IH [OF higher, of "Some a"] obtain pre x post where
        r: "ps = pre @ x # post" "fold ?step ps (p_score a, Some a) = (p_score x, Some x)"
           "p_score a < p_score x" "\<forall>p \<in> set pre. p_score p < p_score x"
           "\<forall>p \<in> set post. p_score p \<le> p_score x"
        by blast
      have "a # ps = (a # pre) @ x # post" using r(1) by simp
      moreover have "fold ?step (a # ps) (m, w) = (p_score x, Some x)"
        using True r(2) by simp
      moreover have "m < p_score x" using True r(3) by simp
      moreover have "\<forall>p \<in> set (a # pre). p_score p < p_score x" using r(3,4) by simp
      ultimately show ?thesis using r(5) by blast
    next
      case False
      then have le: "\<forall>p \<in> set ps. p_score p \<le> p_score a" by auto
      have "a # ps = [] @ a # ps" by simp
      moreover have "fold ?step (a # ps) (m, w) = (p_score a, Some a)"
        using True pickWinner_none [OF le, of "Some a"] by simp
      ultimately show ?thesis using True le by (metis empty_iff list.set(1))
    qed
  next
    case False
    with Cons.prems have higher: "\<exists>p \<in> set ps. m < p_score p" by auto
    from Cons.IH [OF higher, of w] obtain pre x post where
      r: "ps = pre @ x # post" "fold ?step ps (m, w) = (p_score x, Some x)"
         "m < p_score x" "\<forall>p \<in> set pre. p_score p < p_score x"
         "\<forall>p \<in> set post. p_score p \<le> p_score x"
      by blast
    have "a # ps = (a # pre) @ x # post" using r(1) by simp
    moreover have "fold ?step (a # ps) (m, w) = (p_score x, Some x)"
      using False r(2) by simp
    moreover have "\<forall>p \<in> set (a # pre). p_score p < p_score x" using False r(3,4) by simp
    ultimately show ?thesis using r(3,5) by blast
  qed
qed

lemma endGame_winner:
  "winner (fst (endGame s)) =
     (case snd (pickWinner (players (fst (endGame s)))) of
        Some p \<Rightarrow> Obj p
      | None \<Rightarrow>
          if truthyId (adminId s)
          then (case find (\<lambda>p. Some (p_id p) = adminId s) (players (fst (endGame s))) of
                  None \<Rightarrow> Undefined
                | Some p \<Rightarrow> Obj p)
          else Obj syntheticAdmin)"
proof -
  have p: "players (fst (endGame s)) =
      map (\<lambda>p. p\<lparr>p_score := scoreOf (endScores s) (p_id p)\<rparr>) (players s)"
    by simp
  show ?thesis
    unfolding p by (simp add: endGame_def endScores_def Let_def cong: option.case_cong if_cong)
qed

lemma endGame_winner_highest:
  assumes "\<exists>p \<in> set (players (fst (endGame s))). 0 < p_score p"
  shows "\<exists>pre x post. players (fst (endGame s)) = pre @ x # post
     \<and> winner (fst (endGame s)) = Obj x
     \<and> (\<forall>p \<in> set pre. p_score p < p_score x)
     \<and> (\<forall>p \<in> set post. p_score p \<le> p_score x)"
proof -
  from pickWinner_first_highest [OF assms, of None] obtain pre x post where
    r: "players (fst (endGame s)) = pre @ x # post"
       "pickWinner (players (fst (endGame s))) = (p_score x, Some x)"
       "\<forall>p \<in> set pre. p_score p < p_score x" "\<forall>p \<in> set post. p_score p \<le> p_score x"
    unfolding pickWinner_def by blast
  have "winner (fst (endGame s)) = Obj x"
    by (simp only: endGame_winner r(2)) simp
  with r show ?thesis by blast
qed

lemma endGame_winner_default:
  assumes "\<forall>p \<in> set (players (fst (endGame s))). p_score p \<le> 0"
  shows "winner (fst (endGame s)) =
     (if truthyId (adminId s)
      then (case find (\<lambda>p. Some (p_id p) = adminId s) (players (fst (endGame s))) of
              None \<Rightarrow> Undefined
            | Some p \<Rightarrow> Obj p)
      else Obj syntheticAdmin)"
proof -
  have "pickWinner (players (fst (endGame s))) = (0, None)"
    unfolding pickWinner_def using assms by (rule pickWinner_none)
  then show ?thesis
    by (simp only: endGame_winner) simp
qed

subsection \<open>Accepted claims\<close>

lemma ownerAt_assign:
  "elementIndex q = Some n \<Longrightarrow> ownerAt (assign g q v) n = Some (ownerId v)"
  by (simp add: ownerAt_def assign_def setElem_def nth_append)

lemma claimSquare_accepted:
  assumes "countdown s = None" and "winner s = Null"
      and "find (\<lambda>p. p_id p = sid) (players s) = Some p"
      and "q \<noteq> JNum 0 \<or> adminId s = Some sid"
  shows "fst (claimSquare sid q s) = calculateScores (s\<lparr>grid := assign (grid s) q (claimed p q)\<rparr>)"
  using assms by (auto simp: claimSquare_eq)

lemma claimSquare_owner:
  assumes "countdown s = None" and "winner s = Null"
      and "find (\<lambda>p. p_id p = sid) (players s) = Some p"
      and "q \<noteq> JNum 0 \<or> adminId s = Some sid" and "elementIndex q = Some n"
  shows "ownerAt (grid (fst (claimSquare sid q s))) n = Some sid"
proof -
  from assms(3) have "p_id p = sid" by (auto simp: find_Some_iff)
  then show ?thesis
    using claimSquare_accepted [OF assms(1-4)] ownerAt_assign [OF assms(5), of "grid s" "claimed p q"]
    by (simp add: claimed_def)
qed

lemma claimSquare_zero_refused:
  "adminId s \<noteq> Some sid \<Longrightarrow> claimSquare sid (JNum 0) s = (s, [])"
  by (auto simp: claimSquare_def split: option.splits)

subsection \<open>The last player leaves\<close>

lemma last_disconnect_resets:
  assumes "filter (\<lambda>p. p_id p \<noteq> sid) (players s) = []"
  shows "players (fst (disconnect sid s)) = []"
    and "gameInterval (fst (disconnect sid s)) = None"
    and "timeLeft (fst (disconnect sid s)) = 60"
    and "winner (fst (disconnect sid s)) = Null"
    and "countdown (fst (disconnect sid s)) = None"
    and "grid (fst (disconnect sid s)) = resetGrid (grid s)"
    and "adminId (fst (disconnect sid s)) = (if adminId s = Some sid then None else adminId s)"
    and "countdownIntervals (fst (disconnect sid s)) = countdownIntervals s"
  using assms
  by (auto simp: disconnect_eq lobby_def Let_def promote_players promote_grid)

section \<open>Properties stated by the specification\<close>

subsection \<open>Rejected claims\<close>

text \<open>
  Claim C1, amended. In every state the server can reach, a \<^verbatim>\<open>claimSquare\<close> event is
  rejected with no state change and no broadcast when the phase is not Active, or when
  the cell is 0 and the caller is not the admin, or when the caller is not in the roster.
  In the static-admin variant no connection is the admin, so cell 0 is always refused
  there. A cell id outside 0..99 is no reason for rejection.
\<close>

theorem claim_rejected_unchanged:
  "(run evs init = Some s
    \<and> (phaseOf s \<noteq> Active \<or> (squareId = JNum 0 \<and> adminId s \<noteq> Some sid) \<or> sid \<notin> p_id ` set (players s))
    \<longrightarrow> claimSquare sid squareId s = (s, []))
 \<and> (((sid \<noteq> ''admin'' \<and> phaseOf (run_p0 evs init_p0) \<noteq> Active) \<or> squareId = JNum 0
       \<or> sid \<notin> p_id ` set (players (run_p0 evs init_p0)))
    \<longrightarrow> claimSquare_p0 sid squareId (run_p0 evs init_p0) = (run_p0 evs init_p0, []))"
proof (intro conjI impI)
  assume a: "run evs init = Some s
    \<and> (phaseOf s \<noteq> Active \<or> (squareId = JNum 0 \<and> adminId s \<noteq> Some sid) \<or> sid \<notin> p_id ` set (players s))"
  then have t: "timersOk s" using timersOk_run by blast
  from a consider "phaseOf s \<noteq> Active" | "squareId = JNum 0 \<and> adminId s \<noteq> Some sid"
    | "sid \<notin> p_id ` set (players s)" by blast
  then show "claimSquare sid squareId s = (s, [])"
  proof cases
    case 1
    with t not_Active [of s] have "players s = [] \<or> countdown s \<noteq> None"
      by (auto simp: timersOk_def)
    then show ?thesis
    proof
      assume "players s = []"
      then show ?thesis by (simp add: claimSquare_def)
    next
      assume "countdown s \<noteq> None"
      then show ?thesis by (simp add: claimSquare_def)
    qed
  next
    case 2
    then have "Some sid \<noteq> adminId s" by auto
    with 2 show ?thesis
      by (simp add: claimSquare_def split: option.splits)
  next
    case 3
    then show ?thesis
      using find_id_None [of sid "players s"] by (simp add: claimSquare_def)
  qed
next
  let ?s = "run_p0 evs init_p0"
  assume a: "(sid \<noteq> ''admin'' \<and> phaseOf ?s \<noteq> Active) \<or> squareId = JNum 0
       \<or> sid \<notin> p_id ` set (players ?s)"
  have t: "timersOk_p0 ?s" by (rule timersOk_p0_run)
  from a consider "sid \<noteq> ''admin''" "phaseOf ?s \<noteq> Active" | "squareId = JNum 0"
    | "sid \<notin> p_id ` set (players ?s)" by blast
  then show "claimSquare_p0 sid squareId ?s = (?s, [])"
  proof cases
    case 1
    with t not_Active [of ?s] have "sid \<notin> p_id ` set (players ?s) \<or> countdown ?s \<noteq> None"
      by (auto simp: timersOk_p0_def)
    then show ?thesis
    proof
      assume "sid \<notin> p_id ` set (players ?s)"
      then show ?thesis
        using find_id_None [of sid "players ?s"] by (simp add: claimSquare_p0_def)
    next
      assume "countdown ?s \<noteq> None"
      then show ?thesis by (simp add: claimSquare_p0_def)
    qed
  next
    case 2
    then show ?thesis
      by (simp add: claimSquare_p0_def)
  next
    case 3
    then show ?thesis
      using find_id_None [of sid "players ?s"] by (simp add: claimSquare_p0_def)
  qed
qed

text \<open>
  The claim as written also rejects a cell id outside 0..99. The handler has no range
  check: in an Active round the claim of cell 100 by the joined player Bo extends the grid
  to 101 elements and raises Bo's score.
\<close>

theorem claim_out_of_range_counterexample:
  "run alBoJoined init \<noteq> None
 \<and> \<not> (0 \<le> (100::int) \<and> (100::int) \<le> 99)
 \<and> length (elems (grid (the (run alBoJoined init)))) = 100
 \<and> length (elems (grid (fst (claimSquare sidB (JNum 100) (the (run alBoJoined init)))))) = 101
 \<and> ownerAt (grid (fst (claimSquare sidB (JNum 100) (the (run alBoJoined init))))) 100 = Some sidB
 \<and> map p_score (players (the (run alBoJoined init))) = [1, 0]
 \<and> map p_score (players (fst (claimSquare sidB (JNum 100) (the (run alBoJoined init))))) = [1, 1]"
  by code_simp

theorem claim_rejected_unchanged_witness:
  "(run (alBoJoined @ replicate 60 GameTick) init = Some (the (run (alBoJoined @ replicate 60 GameTick) init))
    \<and> phaseOf (the (run (alBoJoined @ replicate 60 GameTick) init)) \<noteq> Active
    \<and> claimSquare sidB (JNum 5) (the (run (alBoJoined @ replicate 60 GameTick) init)) =
        (the (run (alBoJoined @ replicate 60 GameTick) init), []))
 \<and> (JNum 0 = JNum 0
    \<and> claimSquare_p0 sidB (JNum 0) (run_p0 alBoJoined init_p0) = (run_p0 alBoJoined init_p0, []))"
proof -
  have a: "run (alBoJoined @ replicate 60 GameTick) init \<noteq> None"
    by code_simp
  have b: "phaseOf (the (run (alBoJoined @ replicate 60 GameTick) init)) \<noteq> Active"
    by code_simp
  show ?thesis
    using a b
      claim_rejected_unchanged [of "alBoJoined @ replicate 60 GameTick"
        "the (run (alBoJoined @ replicate 60 GameTick) init)" "JNum 5" sidB]
      claim_rejected_unchanged [of alBoJoined "the (run alBoJoined init)" "JNum 0" sidB]
    by auto
qed

subsection \<open>Joining under a name that is taken\<close>

text \<open>
  Claim C9. A \<^verbatim>\<open>joinGame\<close> request whose name is exactly the name of a player in the
  roster is answered with \<^verbatim>\<open>success: false\<close> and the name-taken message, and the session
  state stays as it is. Both variants answer so.
\<close>

theorem join_name_taken:
  "(p \<in> set (players s) \<and> p_name p = name \<longrightarrow>
      joinGame sid ctry name color draws s =
        Some (s, [Callback sid False
                    (Some ''This name is already taken. Please choose a different one.'')]))
 \<and> (p \<in> set (players s) \<and> p_name p = name \<longrightarrow>
      joinGame_p0 sid ctry name color s =
        (s, [Callback sid False
               (Some ''This name is already taken. Please choose a different one.'')]))"
proof -
  have "\<exists>q. find (\<lambda>p. p_name p = name) (players s) = Some q"
    if "p \<in> set (players s)" and "p_name p = name"
    using that find_name_Some [of p "players s" "\<lambda>p. p_name p = name"] by blast
  then show ?thesis
    by (auto simp: joinGame_def joinGame_p0_def nameTaken_def)
qed

theorem join_name_taken_witness:
  "(al \<in> set (players (the (run alJoined init))) \<and> p_name al = ''Al''
    \<and> joinGame sidB unknown ''Al'' ''#00ff00'' [] (the (run alJoined init)) =
        Some (the (run alJoined init),
              [Callback sidB False
                 (Some ''This name is already taken. Please choose a different one.'')]))
 \<and> (adminPlayer \<in> set (players init_p0) \<and> p_name adminPlayer = ''Admin''
    \<and> joinGame_p0 sidB unknown ''Admin'' ''#00ff00'' init_p0 =
        (init_p0,
         [Callback sidB False
            (Some ''This name is already taken. Please choose a different one.'')]))"
proof -
  have a: "al \<in> set (players (the (run alJoined init)))"
    by code_simp
  have b: "p_name al = ''Al''"
    by (simp add: al_def)
  have c: "adminPlayer \<in> set (players init_p0)"
    by (simp add: init_p0_def)
  have d: "p_name adminPlayer = ''Admin''"
    by (simp add: adminPlayer_def)
  show ?thesis
    using a b c d
      join_name_taken [of al "the (run alJoined init)" "''Al''" sidB unknown "''#00ff00''" "[]"]
      join_name_taken [of adminPlayer init_p0 "''Admin''" sidB unknown "''#00ff00''" "[]"]
    by blast
qed

subsection \<open>Disconnection of the admin\<close>

text \<open>
  Claim C8. When the connection holding the admin role disconnects and the roster without
  it is not empty, the same handler run makes the first remaining player the admin: it
  differs from the old admin, its colour becomes \<^verbatim>\<open>#000000\<close>, cell 0 gets its id and
  name, and the promoted connection is told. The id of a player is a connection id and so
  is not empty.
\<close>

theorem admin_disconnect_promotes:
  assumes "adminId s = Some sid"
      and "filter (\<lambda>p. p_id p \<noteq> sid) (players s) = q # qs"
      and "p_id q \<noteq> []"
  shows "adminId (fst (disconnect sid s)) = Some (p_id q)
       \<and> p_id q \<noteq> sid
       \<and> (\<exists>q' qs'. players (fst (disconnect sid s)) = q' # qs'
             \<and> p_id q' = p_id q \<and> p_name q' = p_name q \<and> p_color q' = ''#000000'')
       \<and> (\<exists>rest. elems (grid (fst (disconnect sid s))) =
             Some \<lparr>s_id = JNum 0, s_color = ''#000000'', ownerId = p_id q, ownerName = p_name q\<rparr> # rest)
       \<and> AdminStatus (p_id q) True \<in> set (snd (disconnect sid s))"
proof -
  have "q \<in> set (filter (\<lambda>p. p_id p \<noteq> sid) (players s))"
    using assms(2) by simp
  then have ne: "p_id q \<noteq> sid" by simp
  obtain rest where r: "elems (assign (grid s) (JNum 0)
      \<lparr>s_id = JNum 0, s_color = black, ownerId = p_id q, ownerName = p_name q\<rparr>) =
      Some \<lparr>s_id = JNum 0, s_color = black, ownerId = p_id q, ownerName = p_name q\<rparr> # rest"
    using assign_0 by blast
  show ?thesis
    using assms ne r
    by (simp add: disconnect_def promote_def truthyId_def calculateScores_def Let_def black_def)
qed

theorem admin_disconnect_promotes_witness:
  "adminId (the (run alBoJoined init)) = Some sidA
 \<and> filter (\<lambda>p. p_id p \<noteq> sidA) (players (the (run alBoJoined init))) = bo # []
 \<and> p_id bo \<noteq> []
 \<and> adminId (fst (disconnect sidA (the (run alBoJoined init)))) = Some (p_id bo)
 \<and> p_id bo \<noteq> sidA
 \<and> (\<exists>q' qs'. players (fst (disconnect sidA (the (run alBoJoined init)))) = q' # qs'
       \<and> p_id q' = p_id bo \<and> p_name q' = p_name bo \<and> p_color q' = ''#000000'')
 \<and> (\<exists>rest. elems (grid (fst (disconnect sidA (the (run alBoJoined init))))) =
       Some \<lparr>s_id = JNum 0, s_color = ''#000000'', ownerId = p_id bo, ownerName = p_name bo\<rparr> # rest)
 \<and> AdminStatus (p_id bo) True \<in> set (snd (disconnect sidA (the (run alBoJoined init))))"
proof -
  have a: "adminId (the (run alBoJoined init)) = Some sidA"
    by code_simp
  have b: "filter (\<lambda>p. p_id p \<noteq> sidA) (players (the (run alBoJoined init))) = bo # []"
    by code_simp
  have c: "p_id bo \<noteq> []"
    by (simp add: bo_def sidB_def)
  show ?thesis
    using a b c admin_disconnect_promotes [OF a b c] by blast
qed

subsection \<open>Clock ticks\<close>

text \<open>
  Claim C6. While the round timer runs, a tick takes 1 off \<^verbatim>\<open>timeLeft\<close> and broadcasts the
  new value; if the new value is above 0 nothing else changes, and if it is 0 or less the
  phase becomes Cooldown with \<^verbatim>\<open>countdown = 10\<close> and a cooldown timer is started. During a
  cooldown a tick takes 1 off \<^verbatim>\<open>countdown\<close> and broadcasts it; if the new value is 0 or
  less the round restarts in the same step: the phase is Active, \<^verbatim>\<open>timeLeft = 60\<close>, the
  countdown and the winner are cleared, and every cell other than cell 0 is unclaimed and
  white.
\<close>

theorem tick_lifecycle:
  "(gameInterval s = Some Running \<longrightarrow>
      handleEvent GameTick s = Some (gameTick s)
    \<and> timeLeft (fst (gameTick s)) = timeLeft s - 1
    \<and> (\<exists>g ps cd w. Broadcast (g, ps, timeLeft s - 1, cd, w) \<in> set (snd (gameTick s)))
    \<and> (0 < timeLeft s - 1 \<longrightarrow>
          fst (gameTick s) = s\<lparr>timeLeft := timeLeft s - 1\<rparr> \<and> phaseOf (fst (gameTick s)) = Active)
    \<and> (timeLeft s - 1 \<le> 0 \<longrightarrow>
          phaseOf (fst (gameTick s)) = Cooldown \<and> countdown (fst (gameTick s)) = Some 10
        \<and> countdownIntervals (fst (gameTick s)) = Suc (countdownIntervals s)))
 \<and> (0 < countdownIntervals s \<and> countdown s = Some n \<longrightarrow>
      handleEvent CooldownTick s = Some (cooldownTick s)
    \<and> (\<exists>g ps tl w. Broadcast (g, ps, tl, Some (n - 1), w) \<in> set (snd (cooldownTick s)))
    \<and> (0 < n - 1 \<longrightarrow> fst (cooldownTick s) = s\<lparr>countdown := Some (n - 1)\<rparr>)
    \<and> (n - 1 \<le> 0 \<longrightarrow>
          phaseOf (fst (cooldownTick s)) = Active
        \<and> timeLeft (fst (cooldownTick s)) = 60
        \<and> countdown (fst (cooldownTick s)) = None
        \<and> winner (fst (cooldownTick s)) = Null
        \<and> countdownIntervals (fst (cooldownTick s)) = countdownIntervals s - 1
        \<and> length (elems (grid (fst (cooldownTick s)))) = length (elems (grid s))
        \<and> (\<forall>i. 0 < i \<and> i < length (elems (grid s)) \<longrightarrow>
              elems (grid (fst (cooldownTick s))) ! i =
                map_option (\<lambda>_. \<lparr>s_id = JNum (int i), s_color = ''#FFFFFF'', ownerId = '''', ownerName = ''''\<rparr>)
                  (elems (grid s) ! i))))"
proof (intro conjI impI)
  assume r: "gameInterval s = Some Running"
  then show "handleEvent GameTick s = Some (gameTick s)" by simp
  show "timeLeft (fst (gameTick s)) = timeLeft s - 1"
    by (simp add: gameTick_eq)
  show "\<exists>g ps cd w. Broadcast (g, ps, timeLeft s - 1, cd, w) \<in> set (snd (gameTick s))"
    by (simp add: gameTick_def endGame_def Let_def broadcastGameState_def snapshot_def)
  show "fst (gameTick s) = s\<lparr>timeLeft := timeLeft s - 1\<rparr>" if "0 < timeLeft s - 1"
    using that by (simp add: gameTick_eq)
  show "phaseOf (fst (gameTick s)) = Active" if "0 < timeLeft s - 1"
    using that r by (simp add: gameTick_eq phaseOf_def)
  show "phaseOf (fst (gameTick s)) = Cooldown" if "timeLeft s - 1 \<le> 0"
    using that r by (simp add: gameTick_eq phaseOf_def clearInterval_def)
  show "countdown (fst (gameTick s)) = Some 10" if "timeLeft s - 1 \<le> 0"
    using that by (simp add: gameTick_eq)
  show "countdownIntervals (fst (gameTick s)) = Suc (countdownIntervals s)" if "timeLeft s - 1 \<le> 0"
    using that by (simp add: gameTick_eq)
next
  assume c: "0 < countdownIntervals s \<and> countdown s = Some n"
  then have t: "ticked s = n - 1" by (simp add: ticked_def)
  from c show "handleEvent CooldownTick s = Some (cooldownTick s)" by simp
  from c have "Broadcast (grid s, players s, timeLeft s, Some (n - 1), winner s)
                 \<in> set (snd (cooldownTick s))"
    by (simp add: cooldownTick_def Let_def split_def broadcastGameState_def snapshot_def)
  then show "\<exists>g ps tl w. Broadcast (g, ps, tl, Some (n - 1), w) \<in> set (snd (cooldownTick s))"
    by blast
  show "fst (cooldownTick s) = s\<lparr>countdown := Some (n - 1)\<rparr>" if "0 < n - 1"
    using that t by (simp add: cooldownTick_eq)
  show "phaseOf (fst (cooldownTick s)) = Active" if "n - 1 \<le> 0"
    using that t by (simp add: cooldownTick_eq phaseOf_def)
  show "timeLeft (fst (cooldownTick s)) = 60" if "n - 1 \<le> 0"
    using that t by (simp add: cooldownTick_eq)
  show "countdown (fst (cooldownTick s)) = None" if "n - 1 \<le> 0"
    using that t by (simp add: cooldownTick_eq)
  show "winner (fst (cooldownTick s)) = Null" if "n - 1 \<le> 0"
    using that t by (simp add: cooldownTick_eq)
  show "countdownIntervals (fst (cooldownTick s)) = countdownIntervals s - 1" if "n - 1 \<le> 0"
    using that t by (simp add: cooldownTick_eq)
  show "length (elems (grid (fst (cooldownTick s)))) = length (elems (grid s))" if "n - 1 \<le> 0"
    using that t by (simp add: cooldownTick_eq startGameTimer_grid)
  show "\<forall>i. 0 < i \<and> i < length (elems (grid s)) \<longrightarrow>
          elems (grid (fst (cooldownTick s))) ! i =
            map_option (\<lambda>_. \<lparr>s_id = JNum (int i), s_color = ''#FFFFFF'', ownerId = '''', ownerName = ''''\<rparr>)
              (elems (grid s) ! i)" if "n - 1 \<le> 0"
    using that t
    by (simp add: cooldownTick_eq startGameTimer_grid mapIndexed_nth blankSquare_def white_def)
qed

theorem tick_lifecycle_witness:
  "(gameInterval running = Some Running \<and> 0 < timeLeft running - 1
    \<and> fst (gameTick running) = running\<lparr>timeLeft := 59\<rparr>
    \<and> phaseOf (fst (gameTick running)) = Active)
 \<and> (gameInterval lastSecond = Some Running \<and> timeLeft lastSecond - 1 \<le> 0
    \<and> timeLeft (fst (gameTick lastSecond)) = 0
    \<and> phaseOf (fst (gameTick lastSecond)) = Cooldown
    \<and> countdown (fst (gameTick lastSecond)) = Some 10)
 \<and> (0 < countdownIntervals (cooling 10) \<and> countdown (cooling 10) = Some 10 \<and> (0::int) < 10 - 1
    \<and> fst (cooldownTick (cooling 10)) = (cooling 10)\<lparr>countdown := Some 9\<rparr>)
 \<and> (0 < countdownIntervals (cooling 1) \<and> countdown (cooling 1) = Some 1 \<and> (1::int) - 1 \<le> 0
    \<and> (0 < (5::nat) \<and> 5 < length (elems (grid (cooling 1))))
    \<and> phaseOf (fst (cooldownTick (cooling 1))) = Active
    \<and> timeLeft (fst (cooldownTick (cooling 1))) = 60
    \<and> elems (grid (fst (cooldownTick (cooling 1)))) ! 5 =
         map_option (\<lambda>_. \<lparr>s_id = JNum 5, s_color = ''#FFFFFF'', ownerId = '''', ownerName = ''''\<rparr>)
           (elems (grid (cooling 1)) ! 5))"
proof -
  have a: "gameInterval running = Some Running" "timeLeft running = 60"
    by (simp_all add: running_def init_def)
  have b: "gameInterval lastSecond = Some Running" "timeLeft lastSecond = 1"
    by (simp_all add: lastSecond_def init_def)
  have c: "0 < countdownIntervals (cooling n)" "countdown (cooling n) = Some n"
      "length (elems (grid (cooling n))) = 100" for n
    by (simp_all add: cooling_def init_def initGrid_def)
  have w1: "fst (gameTick running) = running\<lparr>timeLeft := 59\<rparr>
          \<and> phaseOf (fst (gameTick running)) = Active"
    using a tick_lifecycle [of running 0] by (simp add: phaseOf_def)
  have w2: "timeLeft (fst (gameTick lastSecond)) = 0
          \<and> phaseOf (fst (gameTick lastSecond)) = Cooldown
          \<and> countdown (fst (gameTick lastSecond)) = Some 10"
    using b tick_lifecycle [of lastSecond 0] by simp
  have w3: "fst (cooldownTick (cooling 10)) = (cooling 10)\<lparr>countdown := Some 9\<rparr>"
    using c [of 10] tick_lifecycle [of "cooling 10" 10] by simp
  have w4: "phaseOf (fst (cooldownTick (cooling 1))) = Active
          \<and> timeLeft (fst (cooldownTick (cooling 1))) = 60
          \<and> (\<forall>i. 0 < i \<and> i < length (elems (grid (cooling 1))) \<longrightarrow>
                elems (grid (fst (cooldownTick (cooling 1)))) ! i =
                  map_option (\<lambda>_. \<lparr>s_id = JNum (int i), s_color = ''#FFFFFF'', ownerId = [], ownerName = []\<rparr>)
                    (elems (grid (cooling 1)) ! i))"
    using c [of 1] tick_lifecycle [of "cooling 1" 1] by simp
  then have w5: "elems (grid (fst (cooldownTick (cooling 1)))) ! 5 =
         map_option (\<lambda>_. \<lparr>s_id = JNum 5, s_color = ''#FFFFFF'', ownerId = [], ownerName = []\<rparr>)
           (elems (grid (cooling 1)) ! 5)"
    using c [of 1] by simp
  show ?thesis
    using a b c [of 10] c [of 1] w1 w2 w3 w4 w5 by (simp add: phaseOf_def)
qed

subsection \<open>The admin and the other cells\<close>

text \<open>
  Claim C2 says the admin can claim cell 0 only. The comment above the guard in
  \<^verbatim>\<open>src/index.js\<close> says so too, but the guard only stops other players from claiming
  cell 0. Al connects first, becomes admin and joins; in the Active round Al's claim of
  cell 5 succeeds. What the claim says of the other players holds: cell 0 is refused to
  them in every state (\<open>claimSquare_zero_refused\<close>) and a joined player's claim of another
  cell is accepted when no cooldown is running (\<open>claimSquare_owner\<close>).
\<close>

theorem admin_claims_other_cell:
  "run (alJoined @ [ClaimSquare sidA (JNum 5)]) init \<noteq> None
 \<and> adminId (the (run alJoined init)) = Some sidA
 \<and> phaseOf (the (run alJoined init)) = Active
 \<and> ownerAt (grid (the (run alJoined init))) 5 = Some ''''
 \<and> ownerAt (grid (the (run (alJoined @ [ClaimSquare sidA (JNum 5)]) init))) 5 = Some sidA"
  by code_simp

subsection \<open>The winner when nobody scored\<close>

text \<open>
  Claim C5 says the current admin wins when no player has a positive score. The first
  connection holds the admin role without joining; Bo joins alone and claims nothing.
  After sixty ticks \<^verbatim>\<open>endGame\<close> looks the admin up in the roster, finds nobody, and
  \<^verbatim>\<open>winner\<close> is \<^verbatim>\<open>undefined\<close>. The rest of the claim holds: with a positive score in
  the roster the winner is the first player with the highest score
  (\<open>endGame_winner_highest\<close>), and \<open>endGame_winner_default\<close> gives the three outcomes
  when nobody scored.
\<close>

theorem winner_undefined_when_admin_not_joined:
  "map_option summary (run (boAlone @ replicate 60 GameTick) init) =
     Some ([sidB], [0], Some sidA, Cooldown, Some Cleared, 1, Some 10, 0, Undefined)"
  by code_simp

subsection \<open>The last player leaves during a cooldown\<close>

text \<open>
  Claim C7 says every timer is stopped when the last player disconnects. The handler stops
  the round timer only. Al joins, the round ends after sixty ticks, and Al disconnects
  during the cooldown: the state is reset (\<open>last_disconnect_resets\<close>) but one cooldown
  timer still runs, and its next tick starts a round with an empty roster.
\<close>

theorem cooldown_timer_survives_last_disconnect:
  "map_option summary (run (alJoined @ replicate 60 GameTick @ [Disconnect sidA]) init) =
     Some ([], [], None, Lobby, None, 1, None, 60, Null)
 \<and> map_option summary (run (alJoined @ replicate 60 GameTick @ [Disconnect sidA, CooldownTick]) init) =
     Some ([], [], None, Active, Some Running, 0, None, 60, Null)"
  by code_simp

subsection \<open>Names and colours in the roster\<close>

text \<open>
  Claim C3, amended. In every state the server can reach, the names of the roster are
  pairwise distinct, provided every join asked for a name of at most 15 characters.
  Colours are not kept distinct.
\<close>

theorem names_stay_distinct:
  "(run evs init = Some s \<and> (\<forall>e \<in> set evs. shortName e) \<longrightarrow> distinct (map p_name (players s)))
 \<and> ((\<forall>e \<in> set evs. shortName e) \<longrightarrow> distinct (map p_name (players (run_p0 evs init_p0))))"
proof (intro conjI impI)
  assume "run evs init = Some s \<and> (\<forall>e \<in> set evs. shortName e)"
  then show "distinct (map p_name (players s))"
    using names_run [of evs init s] by (simp add: init_def)
next
  assume "\<forall>e \<in> set evs. shortName e"
  then show "distinct (map p_name (players (run_p0 evs init_p0)))"
    using names_run_p0 [of init_p0 evs] by (simp add: init_p0_def)
qed

text \<open>
  The claim as written also keeps colours distinct. Neither variant compares the
  requested colour with the colours in use: Bo and Cy both ask for \<^verbatim>\<open>#00ff00\<close> and both
  get it.
\<close>

theorem colours_shared_counterexample:
  "run threeJoined init \<noteq> None
 \<and> map p_id (players (the (run threeJoined init))) = [sidA, sidB, sidC]
 \<and> sidB \<noteq> sidC
 \<and> map p_color (players (the (run threeJoined init))) = [''#000000'', ''#00ff00'', ''#00ff00'']"
  by code_simp

theorem names_stay_distinct_witness:
  "(run alBoJoined init = Some (the (run alBoJoined init)) \<and> list_all shortName alBoJoined
    \<and> map p_name (players (the (run alBoJoined init))) = [''Al'', ''Bo'']
    \<and> distinct (map p_name (players (the (run alBoJoined init)))))
 \<and> (list_all shortName alBoJoined
    \<and> map p_name (players (run_p0 alBoJoined init_p0)) = [''Admin'', ''Al'', ''Bo'']
    \<and> distinct (map p_name (players (run_p0 alBoJoined init_p0))))"
proof -
  have a: "run alBoJoined init \<noteq> None"
    by code_simp
  have b: "\<forall>e \<in> set alBoJoined. shortName e"
    by (simp add: alBoJoined_def alJoined_def)
  have c: "map p_name (players (the (run alBoJoined init))) = [''Al'', ''Bo'']"
    by code_simp
  have d: "map p_name (players (run_p0 alBoJoined init_p0)) = [''Admin'', ''Al'', ''Bo'']"
    by code_simp
  show ?thesis
    using a b c d names_stay_distinct [of alBoJoined "the (run alBoJoined init)"]
    by (auto simp: list_all_iff)
qed

text \<open>
  The name check compares the requested name, the roster stores its first 15 characters:
  two requested names that differ only after the 15th character both pass and are stored
  as the same name.
\<close>

lemma long_names_collide:
  "run longNames init \<noteq> None
 \<and> map p_id (players (the (run longNames init))) = [sidA, sidB]
 \<and> map p_name (players (the (run longNames init))) = [''0123456789abcde'', ''0123456789abcde'']"
  by code_simp

subsection \<open>Joining twice\<close>

text \<open>
  Claim C10, amended. \<^verbatim>\<open>joinGame\<close> never looks for the caller's id in the roster. In
  \<^verbatim>\<open>src/index.js\<close> a request whose name is not taken appends a player with the caller's
  id, whether or not that id is in the roster already, as soon as the colour is settled
  (for anybody but the admin who asks for \<^verbatim>\<open>#000000\<close>, that is once the random draws give
  a colour nobody has). In the static-admin variant the same holds for every name that is
  not taken and is not \<^verbatim>\<open>admin\<close> in some letter case.
\<close>

theorem join_ignores_earlier_join:
  "((\<forall>p \<in> set (players s). p_name p \<noteq> name)
    \<and> (adminId s = Some sid \<or> color \<noteq> ''#000000'' \<or> (\<exists>c \<in> set draws. c \<notin> p_color ` set (players s)))
    \<longrightarrow> (\<exists>s' out. joinGame sid ctry name color draws s = Some (s', out)
          \<and> map p_id (players s') = map p_id (players s) @ [sid]
          \<and> map p_name (players s') = map p_name (players s) @ [take 15 name]
          \<and> Callback sid True None \<in> set out))
 \<and> ((\<forall>p \<in> set (players s). p_name p \<noteq> name) \<and> toLowerCase name \<noteq> ''admin''
    \<longrightarrow> map p_id (players (fst (joinGame_p0 sid ctry name color s))) = map p_id (players s) @ [sid]
      \<and> map p_name (players (fst (joinGame_p0 sid ctry name color s))) =
          map p_name (players s) @ [take 15 name]
      \<and> Callback sid True None \<in> set (snd (joinGame_p0 sid ctry name color s)))"
proof (intro conjI impI)
  assume a: "(\<forall>p \<in> set (players s). p_name p \<noteq> name)
    \<and> (adminId s = Some sid \<or> color \<noteq> ''#000000'' \<or> (\<exists>c \<in> set draws. c \<notin> p_color ` set (players s)))"
  then have f: "find (\<lambda>p. p_name p = name) (players s) = None"
    by (simp add: find_None_iff)
  have "\<exists>c. resolveColor sid color draws s = Some c"
  proof (cases "Some sid = adminId s")
    case True
    then show ?thesis by (simp add: resolveColor_def)
  next
    case False
    show ?thesis
    proof (cases "color = black")
      case True
      with False a have "\<exists>c \<in> set draws. c \<notin> p_color ` set (players s)"
        by (auto simp: black_def)
      then have "\<exists>c. pickColor draws (players s) = Some c"
        by (rule pickColor_Some)
      with False True show ?thesis by (simp add: resolveColor_def)
    next
      case nb: False
      with False show ?thesis by (simp add: resolveColor_def)
    qed
  qed
  then obtain c where c: "resolveColor sid color draws s = Some c" ..
  have j: "joinGame sid ctry name color draws s = Some (admit sid ctry name c s)"
    using f c by (simp add: joinGame_def)
  have "Callback sid True None \<in> set (snd (admit sid ctry name c s))"
    by (simp add: admit_def Let_def split_def)
  with j admit_roster [of sid ctry name c s]
  show "\<exists>s' out. joinGame sid ctry name color draws s = Some (s', out)
          \<and> map p_id (players s') = map p_id (players s) @ [sid]
          \<and> map p_name (players s') = map p_name (players s) @ [take 15 name]
          \<and> Callback sid True None \<in> set out"
    by (metis prod.collapse)
next
  assume a: "(\<forall>p \<in> set (players s). p_name p \<noteq> name) \<and> toLowerCase name \<noteq> ''admin''"
  then have f: "find (\<lambda>p. p_name p = name) (players s) = None"
    by (simp add: find_None_iff)
  with a have j: "joinGame_p0 sid ctry name color s = admit_p0 sid ctry name color s"
    by (simp add: joinGame_p0_def)
  show "map p_id (players (fst (joinGame_p0 sid ctry name color s))) = map p_id (players s) @ [sid]"
    unfolding j by (rule admit_p0_roster)
  show "map p_name (players (fst (joinGame_p0 sid ctry name color s))) =
          map p_name (players s) @ [take 15 name]"
    unfolding j by (rule admit_p0_roster)
  show "Callback sid True None \<in> set (snd (joinGame_p0 sid ctry name color s))"
    unfolding j by (simp add: admit_p0_def Let_def split_def)
qed

text \<open>
  The claim as written appends whenever the name is not taken. In the static-admin variant
  the name \<^verbatim>\<open>admin\<close> is not taken (the roster has \<^verbatim>\<open>Admin\<close> and \<^verbatim>\<open>Al\<close>), yet the
  request of the joined connection is refused and the roster stays as it is.
\<close>

theorem admin_name_refused_counterexample:
  "sidA \<in> set (map p_id (players (run_p0 alJoined init_p0)))
 \<and> ''admin'' \<notin> set (map p_name (players (run_p0 alJoined init_p0)))
 \<and> joinGame_p0 sidA unknown ''admin'' ''#0000ff'' (run_p0 alJoined init_p0) =
     (run_p0 alJoined init_p0,
      [Callback sidA False (Some nameReserved)])"
  by code_simp

theorem join_ignores_earlier_join_witness:
  "(''Al2'' \<notin> set (map p_name (players (the (run alJoined init))))
    \<and> ''#0000ff'' \<noteq> ''#000000''
    \<and> map p_id (players (the (run alJoined init))) = [sidA]
    \<and> (\<exists>s' out. joinGame sidA unknown ''Al2'' ''#0000ff'' [] (the (run alJoined init)) = Some (s', out)
          \<and> map p_id (players s') = [sidA, sidA]
          \<and> map p_name (players s') = [''Al'', ''Al2'']))
 \<and> (''Al2'' \<notin> set (map p_name (players (run_p0 alJoined init_p0)))
    \<and> toLowerCase ''Al2'' \<noteq> ''admin''
    \<and> map p_id (players (run_p0 alJoined init_p0)) = [''admin'', sidA]
    \<and> map p_id (players (fst (joinGame_p0 sidA unknown ''Al2'' ''#0000ff'' (run_p0 alJoined init_p0)))) =
        [''admin'', sidA, sidA])"
proof -
  have a: "\<forall>p \<in> set (players (the (run alJoined init))). p_name p \<noteq> ''Al2''"
    by code_simp
  have b: "map p_id (players (the (run alJoined init))) = [sidA]"
      "map p_name (players (the (run alJoined init))) = [''Al'']"
    by code_simp+
  have c: "\<forall>p \<in> set (players (run_p0 alJoined init_p0)). p_name p \<noteq> ''Al2''"
    by code_simp
  have d: "toLowerCase ''Al2'' \<noteq> ''admin''"
    by (simp add: toLowerCase_def)
  have e: "map p_id (players (run_p0 alJoined init_p0)) = [''admin'', sidA]"
    by code_simp
  have w1: "\<exists>s' out. joinGame sidA unknown ''Al2'' ''#0000ff'' [] (the (run alJoined init)) = Some (s', out)
          \<and> map p_id (players s') = [sidA, sidA]
          \<and> map p_name (players s') = [''Al'', ''Al2'']"
    using a b join_ignores_earlier_join [of "the (run alJoined init)" "''Al2''" sidA "''#0000ff''" "[]" unknown]
    by auto
  have w2: "map p_id (players (fst (joinGame_p0 sidA unknown ''Al2'' ''#0000ff'' (run_p0 alJoined init_p0)))) =
        [''admin'', sidA, sidA]"
    using c d e join_ignores_earlier_join [of "run_p0 alJoined init_p0" "''Al2''" sidA "''#0000ff''" "[]" unknown]
    by simp
  show ?thesis
    using a b c d e w1 w2 by auto
qed

subsection \<open>Scores\<close>

text \<open>
  In \<^verbatim>\<open>src/index.js\<close> the score of every player in the roster is the number of cells the
  player's id owns, in every state the server can reach by valid events, whatever cell
  ids their claims carry: join, claim and disconnect end with \<^verbatim>\<open>calculateScores\<close>,
  \<^verbatim>\<open>endGame\<close> recounts, and \<^verbatim>\<open>startGameTimer\<close> gives the admin 1 and everybody else 0 for
  the grid it resets.
\<close>

lemma scores_count_owned_cells_index:
  assumes "run evs init = Some s" and "\<forall>e \<in> set evs. validEvent e"
  shows "\<forall>p \<in> set (players s). p_score p = int (owned (grid s) (p_id p))"
proof -
  from assms have "scoreInv s" by (rule scoreInv_run)
  then show ?thesis by (simp add: scoreInv_def scoresConsistent_def)
qed

text \<open>
  The static-admin variant keeps the property as long as no claim reaches cell 0, that is,
  as long as no claim carries a value other than the number 0 whose key is \<^verbatim>\<open>0\<close>.
\<close>

lemma scores_count_owned_cells_p0:
  assumes "\<forall>e \<in> set evs. validEvent e" and "\<forall>e \<in> set evs. plainClaim e"
  shows "\<forall>p \<in> set (players (run_p0 evs init_p0)).
           p_score p = int (owned (grid (run_p0 evs init_p0)) (p_id p))"
proof -
  from assms have "scoreInv_p0 (run_p0 evs init_p0)" by (rule scoreInv_p0_run)
  then show ?thesis by (simp add: scoreInv_p0_def scoresConsistent_def)
qed

text \<open>
  Claim C4 says that after every step the score of every player in the roster is the
  number of cells whose \<^verbatim>\<open>ownerId\<close> is the player's id. \<^verbatim>\<open>src/unnamed/part_000\<close> breaks it.
  Its guard \<^verbatim>\<open>squareId === 0\<close>, commented as preventing a claim of the admin square, lets
  the string \<^verbatim>\<open>'0'\<close> through, and \<^verbatim>\<open>grid['0']\<close> is cell 0. After Al's claim Al owns cell 0
  and the static admin has score 0, which still agrees with the grid. At the next restart
  \<^verbatim>\<open>startGameTimer\<close> gives cell 0 back to \<^verbatim>\<open>admin\<close> and resets every score but the admin's:
  the admin owns one cell and has score 0.
\<close>

theorem static_admin_score_lost:
  "scoreTable (run_p0 zeroClaimed init_p0) = [(''admin'', 0, 0), (sidA, 1, 1)]
 \<and> ownerAt (grid (run_p0 zeroClaimed init_p0)) 0 = Some sidA
 \<and> scoreTable (run_p0 zeroRestarted init_p0) = [(''admin'', 0, 1), (sidA, 0, 0)]"
  by code_simp

end
